theory Spec2Isabelle
  imports Main "HOL-Library.Log_Nat" "HOL-Library.Multiset" "HOL-Library.Sublist"
begin

section \<open>JavaScript values used by the server\<close>

text \<open>
  Strings are lists of characters (one \<^typ>\<open>char\<close> stands for one UTF-16 code unit; every
  literal of the source is ASCII). Counters, token counts and times in milliseconds are
  integers: a JavaScript number holds every integer up to \<open>2 ^ 53\<close> exactly. Money amounts
  are fractional, so they are binary64 values: a finite double is the rational number it
  denotes, and every arithmetic operation rounds its exact result to the nearest double,
  ties to the even significand. Overflow to \<open>Infinity\<close> and \<open>NaN\<close> are outside the model.
\<close>

definition rne :: "rat \<Rightarrow> int" where
  "rne x = (let f = \<lfloor>x\<rfloor>; d = x - of_int f
            in if d < 1 / 2 then f
               else if 1 / 2 < d then f + 1
               else if even f then f else f + 1)"

text \<open>The exponent \<open>e\<close> with \<open>2 ^ e \<le> x < 2 ^ (e + 1)\<close>, for positive \<open>x\<close>.\<close>

definition binade :: "rat \<Rightarrow> int" where
  "binade x = (case quotient_of x of (p, q) \<Rightarrow>
     (let d = bitlen p - bitlen q in if 2 powi d \<le> x then d else d - 1))"

text \<open>
  Rounding to binary64: 53 significant bits, the unit in the last place is
  \<open>2 ^ (e - 52)\<close>, and below \<open>2 ^ -1022\<close> the spacing of the subnormal numbers stays
  \<open>2 ^ -1074\<close>.
\<close>

definition ulp :: "rat \<Rightarrow> rat" where
  "ulp x = 2 powi (max (binade \<bar>x\<bar>) (- 1022) - 52)"

definition fl :: "rat \<Rightarrow> rat" where
  "fl x = (if x = 0 then 0 else sgn x * of_int (rne (\<bar>x\<bar> / ulp x)) * ulp x)"

definition fadd :: "rat \<Rightarrow> rat \<Rightarrow> rat" where
  "fadd a b = fl (a + b)"

definition fmul :: "rat \<Rightarrow> rat \<Rightarrow> rat" where
  "fmul a b = fl (a * b)"

definition fdiv :: "rat \<Rightarrow> rat \<Rightarrow> rat" where
  "fdiv a b = fl (a / b)"

text \<open>\<open>Math.round\<close>: the nearest integer, a tie going towards \<open>+\<infinity>\<close>.\<close>

definition Math_round :: "rat \<Rightarrow> rat" where
  "Math_round x = of_int \<lfloor>x + 1 / 2\<rfloor>"

text \<open>\<open>Array.prototype.slice(start, end)\<close>, with its negative indices.\<close>

definition js_slice :: "'a list \<Rightarrow> int \<Rightarrow> int \<Rightarrow> 'a list" where
  "js_slice xs start end' =
     (let len = int (length xs);
          k = (if start < 0 then max (len + start) 0 else min start len);
          final = (if end' < 0 then max (len + end') 0 else min end' len)
      in take (nat (final - k)) (drop (nat k) xs))"

text \<open>\<open>slice(start)\<close>: the end defaults to the length.\<close>

definition js_slice_from :: "'a list \<Rightarrow> int \<Rightarrow> 'a list" where
  "js_slice_from xs start = js_slice xs start (int (length xs))"

text \<open>A number inside a template literal: its decimal digits.\<close>

fun show_nat :: "nat \<Rightarrow> string" where
  "show_nat n =
     (if n < 10 then [''0123456789'' ! n]
      else show_nat (n div 10) @ [''0123456789'' ! (n mod 10)])"

declare show_nat.simps [simp del]

definition show_int :: "int \<Rightarrow> string" where
  "show_int i = (if i < 0 then CHR ''-'' # show_nat (nat (- i)) else show_nat (nat i))"

text \<open>A string in a condition: \<open>undefined\<close> and the empty string are falsy.\<close>

definition truthy :: "string option \<Rightarrow> bool" where
  "truthy s = (case s of None \<Rightarrow> False | Some v \<Rightarrow> v \<noteq> [])"

section \<open>minimax-client: usage and cost\<close>

record MinimaxUsage =
  input_tokens :: int
  output_tokens :: int

record Pricing =
  input_per_million :: rat
  output_per_million :: rat

text \<open>The literals \<open>0.15\<close> and \<open>1.20\<close> are the doubles nearest to them.\<close>

definition PRICING :: Pricing where
  "PRICING = \<lparr>input_per_million = fl (15 / 100), output_per_million = fl (120 / 100)\<rparr>"

definition estimateCost :: "MinimaxUsage \<Rightarrow> rat" where
  "estimateCost usage =
     (let inputCost = fmul (fdiv (fl (of_int (input_tokens usage))) 1000000)
                           (input_per_million PRICING);
          outputCost = fmul (fdiv (fl (of_int (output_tokens usage))) 1000000)
                            (output_per_million PRICING)
      in fdiv (Math_round (fmul (fadd inputCost outputCost) 1000000)) 1000000)"

text \<open>
  What \<open>MinimaxClient.query\<close> resolves with. The call itself is the HTTP request: the
  client is the function that tells how its \<open>n\<close>-th call, made with a prompt and options,
  settles: \<open>Inr\<close> the value it resolves with, \<open>Inl\<close> the reason it rejects with.
\<close>

record QueryResult =
  q_response :: string
  q_model :: string
  q_usage :: MinimaxUsage
  q_cost_estimate_usd :: rat

record QueryOptions =
  opt_system :: "string option"
  opt_max_tokens :: "int option"
  opt_temperature :: "rat option"

text \<open>A rejection reason: an \<open>Error\<close> object with its message, or another value with its
  \<open>String(...)\<close> rendering.\<close>

datatype reason = ErrorObj string | NonError string

text \<open>\<open>err instanceof Error ? err.message : String(err)\<close>\<close>

definition reason_message :: "reason \<Rightarrow> string" where
  "reason_message r = (case r of ErrorObj message \<Rightarrow> message | NonError s \<Rightarrow> s)"

type_synonym MinimaxClient = "nat \<Rightarrow> string \<Rightarrow> QueryOptions \<Rightarrow> reason + QueryResult"

section \<open>batch-processor\<close>

record BatchTask =
  task_id :: string
  prompt :: string
  system :: "string option"
  max_tokens :: "int option"

record BatchResult =
  result_id :: string
  response :: string
  usage :: MinimaxUsage
  success :: bool
  error :: "string option"

record BatchSummary =
  total_tasks :: int
  succeeded :: int
  failed :: int
  total_input_tokens :: int
  total_output_tokens :: int
  total_cost_usd :: rat
  duration_ms :: int

record BatchProcessor =
  client :: MinimaxClient
  defaultConcurrency :: int

text \<open>\<open>processTask\<close> for the \<open>n\<close>-th call of the client: it rejects when the query does.\<close>

definition processTask :: "MinimaxClient \<Rightarrow> nat \<Rightarrow> BatchTask \<Rightarrow> reason + BatchResult" where
  "processTask cl n task =
     (case cl n (prompt task)
             \<lparr>opt_system = system task, opt_max_tokens = max_tokens task,
              opt_temperature = None\<rparr> of
        Inl r \<Rightarrow> Inl r
      | Inr result \<Rightarrow>
          Inr \<lparr>result_id = task_id task, response = q_response result,
               usage = q_usage result, success = True, error = None\<rparr>)"

text \<open>The body of the inner loop: what is pushed for \<open>chunk[j]\<close> and \<open>chunkResults[j]\<close>.\<close>

definition settled_result :: "BatchTask \<Rightarrow> reason + BatchResult \<Rightarrow> BatchResult" where
  "settled_result task result =
     (case result of
        Inr v \<Rightarrow> v
      | Inl r \<Rightarrow>
          \<lparr>result_id = task_id task, response = [],
           usage = \<lparr>input_tokens = 0, output_tokens = 0\<rparr>, success = False,
           error = Some (reason_message r)\<rparr>)"

fun push_settled ::
  "BatchTask list \<Rightarrow> (reason + BatchResult) list \<Rightarrow> BatchResult list \<Rightarrow> BatchResult list" where
  "push_settled (task # chunk) (result # chunkResults) results =
     push_settled chunk chunkResults (results @ [settled_result task result])"
| "push_settled _ _ results = results"

text \<open>
  The Gateway calls as they happen: a call is dispatched when \<open>chunk.map\<close> runs
  \<open>processTask\<close> up to its \<open>fetch\<close>, and settles later. \<open>Promise.allSettled\<close> resumes the loop
  once every call of the chunk has settled, in an order the network decides: \<open>order\<close> lists
  the calls of a chunk in the order they settle.
\<close>

datatype event = Dispatch nat | Settle nat

type_synonym batch_state = "BatchResult list \<times> event list"

text \<open>
  One turn of the outer loop. Every earlier call has pushed one result, so the calls of
  this chunk are numbered from \<open>length results\<close>.
\<close>

definition run_chunk ::
  "MinimaxClient \<Rightarrow> (nat list \<Rightarrow> nat list) \<Rightarrow> BatchTask list \<Rightarrow> batch_state \<Rightarrow> batch_state" where
  "run_chunk cl order chunk st =
     (case st of (results, events) \<Rightarrow>
        (let calls = [length results ..< length results + length chunk];
             chunkResults = map2 (processTask cl) calls chunk
         in (push_settled chunk chunkResults results,
             events @ map Dispatch calls @ map Settle (order calls))))"

text \<open>
  \<open>for (let i = 0; i < tasks.length; i += maxConcurrent)\<close>. Nothing in the loop makes
  \<open>maxConcurrent\<close> positive, so the loop may run forever: not returning is \<open>None\<close>.
\<close>

partial_function (option) processBatch_loop ::
  "MinimaxClient \<Rightarrow> (nat list \<Rightarrow> nat list) \<Rightarrow> BatchTask list \<Rightarrow> int \<Rightarrow> int \<Rightarrow> batch_state
     \<Rightarrow> batch_state option" where
  "processBatch_loop cl order tasks maxConcurrent i st =
     (if i < int (length tasks)
      then processBatch_loop cl order tasks maxConcurrent (i + maxConcurrent)
             (run_chunk cl order (js_slice tasks i (i + maxConcurrent)) st)
      else Some st)"

declare processBatch_loop.simps [code]

text \<open>\<open>startTime\<close> and \<open>endTime\<close> are the two readings of \<open>Date.now()\<close>.\<close>

definition processBatch ::
  "BatchProcessor \<Rightarrow> (nat list \<Rightarrow> nat list) \<Rightarrow> int \<Rightarrow> int \<Rightarrow> BatchTask list \<Rightarrow> int option
     \<Rightarrow> ((BatchResult list \<times> BatchSummary) \<times> event list) option" where
  "processBatch bp order startTime endTime tasks concurrency =
     (let maxConcurrent = (case concurrency of Some c \<Rightarrow> c | None \<Rightarrow> defaultConcurrency bp)
      in case processBatch_loop (client bp) order tasks maxConcurrent 0 ([], []) of
           None \<Rightarrow> None
         | Some (results, events) \<Rightarrow>
             (let succeeded = int (length (filter success results));
                  totalInputTokens =
                    foldl (\<lambda>sum r. sum + input_tokens (usage r)) 0 results;
                  totalOutputTokens =
                    foldl (\<lambda>sum r. sum + output_tokens (usage r)) 0 results
              in Some ((results,
                        \<lparr>total_tasks = int (length tasks),
                         succeeded = succeeded,
                         failed = int (length tasks) - succeeded,
                         total_input_tokens = totalInputTokens,
                         total_output_tokens = totalOutputTokens,
                         total_cost_usd =
                           estimateCost \<lparr>input_tokens = totalInputTokens,
                                         output_tokens = totalOutputTokens\<rparr>,
                         duration_ms = endTime - startTime\<rparr>),
                       events)))"

text \<open>The Gateway calls outstanding after a run of events.\<close>

fun outstanding :: "event list \<Rightarrow> int" where
  "outstanding [] = 0"
| "outstanding (Dispatch n # es) = outstanding es + 1"
| "outstanding (Settle n # es) = outstanding es - 1"

section \<open>usage-tracker\<close>

text \<open>
  A timestamp is the number of milliseconds since the epoch that its ISO string denotes,
  and a calendar date (\<open>toISOString().slice(0, 10)\<close>) is the number of its UTC day. All
  clock readings of one call of the tracker are the same instant \<open>now\<close>.
\<close>

record UsageWindow =
  window_start :: int
  window_end :: int
  prompt_count :: int
  w_total_input_tokens :: int
  w_total_output_tokens :: int
  estimated_cost_usd :: rat

record DailyTotal =
  date :: int
  d_prompt_count :: int
  d_total_input_tokens :: int
  d_total_output_tokens :: int
  d_estimated_cost_usd :: rat

datatype request_type = Query | Batch

record RequestLog =
  timestamp :: int
  req_type :: request_type
  task_count :: int
  log_input_tokens :: int
  log_output_tokens :: int
  cost_usd :: rat
  response_time_ms :: int
  caller :: "string option"
  log_error :: "string option"
  failed_count :: "int option"

datatype run_status = Running | Completed | Failed

record PipelineRun =
  run_id :: string
  started :: int
  completed :: "int option"
  skill_chain :: "string list"
  findings_total :: int
  findings_by_difficulty :: "(string \<times> int) list"
  minimax_tasks :: int
  opus_tasks :: int
  minimax_cost_usd :: rat
  status :: run_status

record Provider =
  provider_name :: string
  pricing :: Pricing

text \<open>
  The interface declares \<open>current_window\<close> and \<open>daily_totals\<close> as required, but a parsed
  document is taken for a \<open>UsageData\<close> unchecked (\<open>as UsageData\<close>), so in the data the tracker
  holds any of the five fields may be missing. A field that is present has its declared type.
\<close>

record UsageData =
  current_window :: "UsageWindow option"
  daily_totals :: "DailyTotal list option"
  recent_requests :: "RequestLog list option"
  pipeline_runs :: "PipelineRun list option"
  provider :: "Provider option"

definition WINDOW_DURATION_MS :: int where
  "WINDOW_DURATION_MS = 5 * 60 * 60 * 1000"

definition MAX_PROMPTS_PER_WINDOW :: int where
  "MAX_PROMPTS_PER_WINDOW = 1000"

definition createNewWindow :: "int \<Rightarrow> UsageWindow" where
  "createNewWindow now =
     \<lparr>window_start = now, window_end = now + WINDOW_DURATION_MS, prompt_count = 0,
      w_total_input_tokens = 0, w_total_output_tokens = 0, estimated_cost_usd = 0\<rparr>"

text \<open>
  The durable file as \<open>loadUsageData\<close> meets it: \<open>readFile\<close> throws (no file);
  \<open>JSON.parse\<close> throws (the content is not JSON); the content is JSON but no object
  (\<open>null\<close>, a number, a string, a boolean), and then reading a property of it or, the module
  being strict code, setting one throws; or the content parses to an object, the document.
\<close>

datatype usage_file = NoFile | NotJson | NotAnObject | Document UsageData

definition loadUsageData :: "int \<Rightarrow> usage_file \<Rightarrow> UsageData" where
  "loadUsageData now f =
     (case f of
        Document data \<Rightarrow>
          (let data1 = (if recent_requests data = None
                        then data\<lparr>recent_requests := Some []\<rparr> else data);
               data2 = (if provider data1 = None
                        then data1\<lparr>provider := Some
                               \<lparr>provider_name = ''minimax-m2.5'',
                                pricing = \<lparr>input_per_million = input_per_million PRICING,
                                           output_per_million = output_per_million PRICING\<rparr>\<rparr>\<rparr>
                        else data1)
           in data2)
      | _ \<Rightarrow>
          \<lparr>current_window = Some (createNewWindow now), daily_totals = Some [],
           recent_requests = Some [], pipeline_runs = None,
           provider = Some
             \<lparr>provider_name = ''minimax-m2.5'',
              pricing = \<lparr>input_per_million = input_per_million PRICING,
                         output_per_million = output_per_million PRICING\<rparr>\<rparr>\<rparr>)"

text \<open>The disk: the file, and the error that \<open>mkdir\<close> or \<open>writeFile\<close> throws, if any.\<close>

record disk =
  stored :: usage_file
  write_error :: "string option"

definition saveUsageData :: "UsageData \<Rightarrow> disk \<Rightarrow> (reason + unit) \<times> disk" where
  "saveUsageData data dk =
     (case write_error dk of
        Some message \<Rightarrow> (Inl (ErrorObj message), dk)
      | None \<Rightarrow> (Inr (), dk\<lparr>stored := Document data\<rparr>))"

text \<open>The \<open>TypeError\<close> of reading a property of \<open>undefined\<close>, with the message V8 gives it.\<close>

definition TypeError :: "string \<Rightarrow> reason" where
  "TypeError property =
     ErrorObj (''Cannot read properties of undefined (reading '' @ [CHR 0x27] @ property @
               [CHR 0x27] @ '')'')"

definition isWindowExpired :: "int \<Rightarrow> UsageWindow option \<Rightarrow> reason + bool" where
  "isWindowExpired now window =
     (case window of
        None \<Rightarrow> Inl (TypeError ''window_end'')
      | Some w \<Rightarrow> Inr (window_end w \<le> now))"

definition getTodayDate :: "int \<Rightarrow> int" where
  "getTodayDate now = now div 86400000"

text \<open>The tracker's \<open>data\<close> field: \<open>null\<close> until the first use.\<close>

type_synonym UsageTracker = "UsageData option"

text \<open>
  \<open>ensureLoaded\<close> returns \<open>this.data\<close>, which the caller then changes in place: every
  operation gives back the tracker with the data it holds at the end, also when it throws.
\<close>

definition ensureLoaded :: "int \<Rightarrow> disk \<Rightarrow> UsageTracker \<Rightarrow> (reason + UsageData) \<times> UsageTracker" where
  "ensureLoaded now dk tr =
     (let data = (case tr of None \<Rightarrow> loadUsageData now (stored dk) | Some d \<Rightarrow> d)
      in case isWindowExpired now (current_window data) of
           Inl err \<Rightarrow> (Inl err, Some data)
         | Inr expired \<Rightarrow>
             (let data1 = (if expired then data\<lparr>current_window := Some (createNewWindow now)\<rparr>
                           else data)
              in (Inr data1, Some data1)))"

record PipelineContext =
  ctx_skill_chain :: "string list"
  ctx_findings_total :: "int option"
  minimax_eligible :: "int option"
  opus_required :: "int option"

record RecordParams =
  p_type :: request_type
  taskCount :: int
  inputTokens :: int
  outputTokens :: int
  costUsd :: rat
  responseTimeMs :: int
  p_caller :: "string option"
  p_error :: "string option"
  failedCount :: "int option"
  pipeline :: "PipelineContext option"

text \<open>\<open>if (xs.length > n) xs = xs.slice(-n)\<close>, written three times in \<open>recordRequest\<close>.\<close>

definition keep_last :: "int \<Rightarrow> 'a list \<Rightarrow> 'a list" where
  "keep_last n xs = (if n < int (length xs) then js_slice_from xs (- n) else xs)"

text \<open>The four \<open>+=\<close> on the window and on the day's entry.\<close>

definition add_to_window :: "RecordParams \<Rightarrow> UsageWindow \<Rightarrow> UsageWindow" where
  "add_to_window params w =
     w\<lparr>prompt_count := prompt_count w + taskCount params,
       w_total_input_tokens := w_total_input_tokens w + inputTokens params,
       w_total_output_tokens := w_total_output_tokens w + outputTokens params,
       estimated_cost_usd := fadd (estimated_cost_usd w) (costUsd params)\<rparr>"

definition add_to_daily :: "RecordParams \<Rightarrow> DailyTotal \<Rightarrow> DailyTotal" where
  "add_to_daily params d =
     d\<lparr>d_prompt_count := d_prompt_count d + taskCount params,
       d_total_input_tokens := d_total_input_tokens d + inputTokens params,
       d_total_output_tokens := d_total_output_tokens d + outputTokens params,
       d_estimated_cost_usd := fadd (d_estimated_cost_usd d) (costUsd params)\<rparr>"

text \<open>\<open>find\<close> gives the first entry that matches, and the entry is changed in place.\<close>

fun update_found :: "('a \<Rightarrow> bool) \<Rightarrow> ('a \<Rightarrow> 'a) \<Rightarrow> 'a list \<Rightarrow> 'a list" where
  "update_found P f [] = []"
| "update_found P f (x # xs) = (if P x then f x # xs else x # update_found P f xs)"

definition truncatedError :: "string option \<Rightarrow> string option" where
  "truncatedError e =
     (case e of
        None \<Rightarrow> None
      | Some s \<Rightarrow>
          if s = [] then None
          else Some (if 500 < length s then take 500 s @ ''...'' else s))"

text \<open>
  \<open>recordRequest\<close>. It throws where \<open>ensureLoaded\<close> does, where \<open>daily_totals\<close> is missing
  (after the log and the window have been changed) and where saving does.
\<close>

definition recordRequest ::
  "int \<Rightarrow> RecordParams \<Rightarrow> disk \<Rightarrow> UsageTracker \<Rightarrow> (reason + unit) \<times> UsageTracker \<times> disk" where
  "recordRequest now params dk tr =
     (case ensureLoaded now dk tr of
        (Inl err, tr1) \<Rightarrow> (Inl err, tr1, dk)
      | (Inr data0, tr1) \<Rightarrow>
     (let requestLog =
            \<lparr>timestamp = now, req_type = p_type params, task_count = taskCount params,
             log_input_tokens = inputTokens params, log_output_tokens = outputTokens params,
             cost_usd = costUsd params, response_time_ms = responseTimeMs params,
             caller = p_caller params, log_error = truncatedError (p_error params),
             failed_count = failedCount params\<rparr>;
          data1 = data0\<lparr>recent_requests := Some (keep_last 200
                   ((case recent_requests data0 of None \<Rightarrow> [] | Some rs \<Rightarrow> rs) @ [requestLog]))\<rparr>
      in case current_window data1 of
           None \<Rightarrow> (Inl (TypeError ''prompt_count''), Some data1, dk)
         | Some window \<Rightarrow>
     (let data2 = data1\<lparr>current_window := Some (add_to_window params window)\<rparr>;
          today = getTodayDate now
      in case daily_totals data2 of
           None \<Rightarrow> (Inl (TypeError ''find''), Some data2, dk)
         | Some totals \<Rightarrow>
     (let data3 =
            (case find (\<lambda>d. date d = today) totals of
               Some found \<Rightarrow>
                 data2\<lparr>daily_totals :=
                   Some (update_found (\<lambda>d. date d = today) (add_to_daily params) totals)\<rparr>
             | None \<Rightarrow>
                 (let dailyEntry =
                        \<lparr>date = today, d_prompt_count = 0, d_total_input_tokens = 0,
                         d_total_output_tokens = 0, d_estimated_cost_usd = 0\<rparr>;
                      capped = keep_last 30 (totals @ [dailyEntry])
                  in data2\<lparr>daily_totals :=
                       Some (capped[length capped - 1 := add_to_daily params dailyEntry])\<rparr>));
          data4 =
            (case pipeline params of
               Some ctx \<Rightarrow>
                 if truthy (p_caller params)
                 then
                   (let run =
                          \<lparr>run_id = ''run-'' @ show_int now, started = now,
                           completed = Some now, skill_chain = ctx_skill_chain ctx,
                           findings_total =
                             (case ctx_findings_total ctx of Some n \<Rightarrow> n | None \<Rightarrow> 0),
                           findings_by_difficulty = [],
                           minimax_tasks =
                             (case minimax_eligible ctx of Some n \<Rightarrow> n | None \<Rightarrow> 0),
                           opus_tasks = (case opus_required ctx of Some n \<Rightarrow> n | None \<Rightarrow> 0),
                           minimax_cost_usd = costUsd params,
                           status = (if truthy (p_error params) then Failed else Completed)\<rparr>
                    in data3\<lparr>pipeline_runs := Some (keep_last 10
                         ((case pipeline_runs data3 of None \<Rightarrow> [] | Some rs \<Rightarrow> rs) @ [run]))\<rparr>)
                 else data3
             | None \<Rightarrow> data3)
      in case saveUsageData data4 dk of (saved, dk') \<Rightarrow> (saved, Some data4, dk')))))"

definition getRemainingPrompts ::
  "int \<Rightarrow> disk \<Rightarrow> UsageTracker \<Rightarrow> (reason + int) \<times> UsageTracker" where
  "getRemainingPrompts now dk tr =
     (case ensureLoaded now dk tr of
        (Inl err, tr1) \<Rightarrow> (Inl err, tr1)
      | (Inr data, tr1) \<Rightarrow>
          (case current_window data of
             None \<Rightarrow> (Inl (TypeError ''prompt_count''), tr1)
           | Some window \<Rightarrow>
               (Inr (max 0 (MAX_PROMPTS_PER_WINDOW - prompt_count window)), tr1)))"

section \<open>index: the two tools\<close>

text \<open>
  What a handler returns: an error reply (\<open>isError: true\<close> with its text), or the output
  object that \<open>JSON.stringify\<close> renders. A handler that throws is \<open>Inl\<close> its reason.
\<close>

datatype tool_reply =
  ErrorReply string
| QueryReply QueryResult int
| BatchReply "BatchResult list" BatchSummary int

text \<open>The module's state: \<open>batchProcessor\<close> (with its \<open>client\<close>) is undefined when the
  client could not be built; the tracker; the disk.\<close>

record server =
  processor :: "BatchProcessor option"
  tracker :: UsageTracker
  storage :: disk

text \<open>\<open>startTime\<close> is the instant the handler starts and checks the quota, \<open>endTime\<close> the
  instant the Gateway work is over and the outcome is recorded.\<close>

text \<open>The \<open>catch\<close> block of \<open>llm_query\<close>: the failure is recorded; recording may throw again.\<close>

definition llm_query_failed ::
  "server \<Rightarrow> int \<Rightarrow> int \<Rightarrow> string option \<Rightarrow> reason \<Rightarrow> UsageTracker \<Rightarrow> disk
     \<Rightarrow> (reason + tool_reply) \<times> server" where
  "llm_query_failed sv startTime endTime query_caller err tr dk =
     (case recordRequest endTime
             \<lparr>p_type = Query, taskCount = 0, inputTokens = 0, outputTokens = 0,
              costUsd = 0, responseTimeMs = endTime - startTime,
              p_caller = query_caller, p_error = Some (reason_message err),
              failedCount = None, pipeline = None\<rparr>
             dk tr of
        (Inr u, tr', dk') \<Rightarrow>
          (Inr (ErrorReply (''MiniMax API error: '' @ reason_message err)),
           sv\<lparr>tracker := tr', storage := dk'\<rparr>)
      | (Inl err', tr', dk') \<Rightarrow> (Inl err', sv\<lparr>tracker := tr', storage := dk'\<rparr>))"

definition llm_query ::
  "server \<Rightarrow> int \<Rightarrow> int \<Rightarrow> string \<Rightarrow> QueryOptions \<Rightarrow> string option
     \<Rightarrow> (reason + tool_reply) \<times> server" where
  "llm_query sv startTime endTime query_prompt opts query_caller =
     (case processor sv of
        None \<Rightarrow>
          (Inr (ErrorReply ''Error: MiniMax client not initialized. Check MINIMAX_API_KEY.''), sv)
      | Some bp \<Rightarrow>
          (case getRemainingPrompts startTime (storage sv) (tracker sv) of
             (Inl err, tr) \<Rightarrow>
               llm_query_failed sv startTime endTime query_caller err tr (storage sv)
           | (Inr remaining, tr) \<Rightarrow>
               if remaining \<le> 0
               then (Inr (ErrorReply
                       ''Rate limit: 0 prompts remaining in current 5-hour window. Try again later.''),
                     sv\<lparr>tracker := tr\<rparr>)
               else
                 (case client bp 0 query_prompt opts of
                    Inl err \<Rightarrow>
                      llm_query_failed sv startTime endTime query_caller err tr (storage sv)
                  | Inr result \<Rightarrow>
                      (case recordRequest endTime
                              \<lparr>p_type = Query, taskCount = 1,
                               inputTokens = input_tokens (q_usage result),
                               outputTokens = output_tokens (q_usage result),
                               costUsd = q_cost_estimate_usd result,
                               responseTimeMs = endTime - startTime,
                               p_caller = query_caller, p_error = None,
                               failedCount = None, pipeline = None\<rparr>
                              (storage sv) tr of
                         (Inr u, tr', dk') \<Rightarrow>
                           (Inr (QueryReply result (remaining - 1)),
                            sv\<lparr>tracker := tr', storage := dk'\<rparr>)
                       | (Inl err, tr', dk') \<Rightarrow>
                           llm_query_failed sv startTime endTime query_caller err tr' dk'))))"

text \<open>The \<open>catch\<close> block of \<open>llm_batch\<close>.\<close>

definition llm_batch_failed ::
  "server \<Rightarrow> int \<Rightarrow> int \<Rightarrow> string option \<Rightarrow> reason \<Rightarrow> UsageTracker \<Rightarrow> disk
     \<Rightarrow> (reason + tool_reply) \<times> server" where
  "llm_batch_failed sv startTime endTime batch_caller err tr dk =
     (case recordRequest endTime
             \<lparr>p_type = Batch, taskCount = 0, inputTokens = 0, outputTokens = 0,
              costUsd = 0, responseTimeMs = endTime - startTime,
              p_caller = batch_caller, p_error = Some (reason_message err),
              failedCount = None, pipeline = None\<rparr>
             dk tr of
        (Inr u, tr', dk') \<Rightarrow>
          (Inr (ErrorReply (''Batch processing error: '' @ reason_message err)),
           sv\<lparr>tracker := tr', storage := dk'\<rparr>)
      | (Inl err', tr', dk') \<Rightarrow> (Inl err', sv\<lparr>tracker := tr', storage := dk'\<rparr>))"

text \<open>The events are the Gateway calls made while the handler ran; \<open>None\<close>: it never returns.\<close>

definition llm_batch ::
  "server \<Rightarrow> (nat list \<Rightarrow> nat list) \<Rightarrow> int \<Rightarrow> int \<Rightarrow> BatchTask list \<Rightarrow> int option
     \<Rightarrow> string option \<Rightarrow> PipelineContext option
     \<Rightarrow> ((reason + tool_reply) \<times> server \<times> event list) option" where
  "llm_batch sv order startTime endTime tasks concurrency batch_caller batch_pipeline =
     (case processor sv of
        None \<Rightarrow>
          Some (Inr (ErrorReply ''Error: MiniMax client not initialized. Check MINIMAX_API_KEY.''),
                sv, [])
      | Some bp \<Rightarrow>
          (case getRemainingPrompts startTime (storage sv) (tracker sv) of
             (Inl err, tr) \<Rightarrow>
               (case llm_batch_failed sv startTime endTime batch_caller err tr (storage sv) of
                  (reply, sv') \<Rightarrow> Some (reply, sv', []))
           | (Inr remaining, tr) \<Rightarrow>
               if remaining < int (length tasks)
               then Some (Inr (ErrorReply
                            (''Rate limit: Only '' @ show_int remaining @
                             '' prompts remaining but '' @ show_int (int (length tasks)) @
                             '' requested. Reduce batch size or wait for window reset.'')),
                          sv\<lparr>tracker := tr\<rparr>, [])
               else
                 (case processBatch bp order startTime endTime tasks concurrency of
                    None \<Rightarrow> None
                  | Some ((results, summary), events) \<Rightarrow>
                      (case recordRequest endTime
                              \<lparr>p_type = Batch, taskCount = succeeded summary,
                               inputTokens = total_input_tokens summary,
                               outputTokens = total_output_tokens summary,
                               costUsd = total_cost_usd summary,
                               responseTimeMs = endTime - startTime,
                               p_caller = batch_caller, p_error = None,
                               failedCount =
                                 (if 0 < failed summary then Some (failed summary) else None),
                               pipeline = batch_pipeline\<rparr>
                              (storage sv) tr of
                         (Inr u, tr', dk') \<Rightarrow>
                           Some (Inr (BatchReply results summary (remaining - succeeded summary)),
                                 sv\<lparr>tracker := tr', storage := dk'\<rparr>, events)
                       | (Inl err, tr', dk') \<Rightarrow>
                           (case llm_batch_failed sv startTime endTime batch_caller err tr' dk' of
                              (reply, sv') \<Rightarrow> Some (reply, sv', events))))))"

section \<open>Notions of the specification\<close>

text \<open>
  The specification's partition of a list into consecutive groups of a given size, the
  last one possibly smaller, and the events of one group: all its calls are dispatched,
  then all of them settle.
\<close>

function consecutive_groups :: "nat \<Rightarrow> 'a list \<Rightarrow> 'a list list" where
  "consecutive_groups n xs =
     (if n = 0 \<or> xs = [] then [] else take n xs # consecutive_groups n (drop n xs))"
  by pat_completeness auto
termination
  by (relation "measure (\<lambda>(n, xs). length xs)") auto

declare consecutive_groups.simps [simp del]

definition group_events :: "(nat list \<Rightarrow> nat list) \<Rightarrow> nat list \<Rightarrow> event list" where
  "group_events order calls = map Dispatch calls @ map Settle (order calls)"

text \<open>The caps of the three rolling logs; a missing list has no entries.\<close>

definition within_caps :: "UsageData \<Rightarrow> bool" where
  "within_caps data =
     (length (case recent_requests data of None \<Rightarrow> [] | Some rs \<Rightarrow> rs) \<le> 200 \<and>
      length (case daily_totals data of None \<Rightarrow> [] | Some ds \<Rightarrow> ds) \<le> 30 \<and>
      length (case pipeline_runs data of None \<Rightarrow> [] | Some rs \<Rightarrow> rs) \<le> 10)"

text \<open>A durable file of the documented format: no file, no JSON, no object, or a document
  whose logs are within the caps.\<close>

definition file_within_caps :: "usage_file \<Rightarrow> bool" where
  "file_within_caps f = (case f of Document data \<Rightarrow> within_caps data | _ \<Rightarrow> True)"

text \<open>
  The states of a ledger. It starts with nothing in memory and a durable file of the
  documented format; then the tracker records requests and answers quota checks, the
  process may restart (the memory is lost, the file stays), writing may start or stop
  failing, and the file may be replaced by another one of the documented format.
\<close>

inductive reachable :: "UsageTracker \<times> disk \<Rightarrow> bool" where
  start: "file_within_caps (stored dk) \<Longrightarrow> reachable (None, dk)"
| recorded: "reachable (tr, dk) \<Longrightarrow> recordRequest now params dk tr = (saved, tr', dk')
             \<Longrightarrow> reachable (tr', dk')"
| checked: "reachable (tr, dk) \<Longrightarrow> getRemainingPrompts now dk tr = (remaining, tr')
            \<Longrightarrow> reachable (tr', dk)"
| restarted: "reachable (tr, dk) \<Longrightarrow> reachable (None, dk)"
| write_changed: "reachable (tr, dk) \<Longrightarrow> reachable (tr, dk\<lparr>write_error := e\<rparr>)"
| file_replaced: "reachable (tr, dk) \<Longrightarrow> file_within_caps f
                  \<Longrightarrow> reachable (tr, dk\<lparr>stored := f\<rparr>)"

text \<open>A message names a number when the number's digits occur in it.\<close>

definition names_number :: "string \<Rightarrow> int \<Rightarrow> bool" where
  "names_number message n = sublist (show_int n) message"

text \<open>
  The cost as the specification words it: the exact sum of the two products, at the rates
  0.15 and 1.20 dollars per million tokens, rounded to 6 decimal places, a half going away
  from zero.
\<close>

definition round_half_away :: "rat \<Rightarrow> int" where
  "round_half_away x = (if 0 \<le> x then \<lfloor>x + 1 / 2\<rfloor> else - \<lfloor>- x + 1 / 2\<rfloor>)"

definition spec_estimate_cost :: "MinimaxUsage \<Rightarrow> rat" where
  "spec_estimate_cost u =
     of_int (round_half_away
       ((of_int (input_tokens u) / 1000000 * (15 / 100) +
         of_int (output_tokens u) / 1000000 * (120 / 100)) * 1000000)) / 1000000"

section \<open>Sample inputs\<close>

definition sample_task :: "string \<Rightarrow> BatchTask" where
  "sample_task name =
     \<lparr>task_id = name, prompt = ''review '' @ name, system = None, max_tokens = None\<rparr>"

definition sample_tasks :: "BatchTask list" where
  "sample_tasks = [sample_task ''a'', sample_task ''b'', sample_task ''c'']"

text \<open>A Gateway whose second call fails and whose other calls succeed.\<close>

definition sample_client :: MinimaxClient where
  "sample_client n p opts =
     (if n = 1 then Inl (ErrorObj ''MiniMax API error 500: overloaded'')
      else Inr \<lparr>q_response = ''ok'', q_model = ''MiniMax-M2.5'',
                q_usage = \<lparr>input_tokens = 10, output_tokens = 20\<rparr>,
                q_cost_estimate_usd = 0\<rparr>)"

definition sample_processor :: BatchProcessor where
  "sample_processor = \<lparr>client = sample_client, defaultConcurrency = 5\<rparr>"

definition sample_disk :: disk where
  "sample_disk = \<lparr>stored = NoFile, write_error = None\<rparr>"

text \<open>A window that ends five hours after the epoch, with 997 prompts used.\<close>

definition sample_window :: UsageWindow where
  "sample_window =
     \<lparr>window_start = 0, window_end = 18000000, prompt_count = 997,
      w_total_input_tokens = 5000, w_total_output_tokens = 7000, estimated_cost_usd = 0\<rparr>"

text \<open>A document that holds only \<open>current_window\<close> and \<open>daily_totals\<close>.\<close>

definition sample_data :: UsageData where
  "sample_data =
     \<lparr>current_window = Some sample_window, daily_totals = Some [], recent_requests = None,
      pipeline_runs = None, provider = None\<rparr>"

text \<open>The document \<open>{}\<close>.\<close>

definition empty_document :: UsageData where
  "empty_document =
     \<lparr>current_window = None, daily_totals = None, recent_requests = None,
      pipeline_runs = None, provider = None\<rparr>"

definition sample_server :: server where
  "sample_server =
     \<lparr>processor = Some sample_processor, tracker = Some sample_data, storage = sample_disk\<rparr>"

definition sample_params :: RecordParams where
  "sample_params =
     \<lparr>p_type = Query, taskCount = 0, inputTokens = 0, outputTokens = 0, costUsd = 0,
      responseTimeMs = 150, p_caller = None, p_error = Some ''fetch failed'',
      failedCount = None, pipeline = None\<rparr>"

text \<open>A ledger whose three logs are full: 200 requests, the days 0 to 29, 10 runs.\<close>

definition sample_log :: "RequestLog list" where
  "sample_log =
     map (\<lambda>n. \<lparr>timestamp = int n, req_type = Query, task_count = 1, log_input_tokens = 10,
                log_output_tokens = 20, cost_usd = 0, response_time_ms = 150, caller = None,
                log_error = None, failed_count = None\<rparr>) [0..<200]"

definition sample_totals :: "DailyTotal list" where
  "sample_totals =
     map (\<lambda>n. \<lparr>date = int n, d_prompt_count = 1, d_total_input_tokens = 10,
                d_total_output_tokens = 20, d_estimated_cost_usd = 0\<rparr>) [0..<30]"

definition sample_runs :: "PipelineRun list" where
  "sample_runs =
     map (\<lambda>n. \<lparr>run_id = ''run'', started = int n, completed = Some (int n),
                skill_chain = [], findings_total = 0, findings_by_difficulty = [],
                minimax_tasks = 0, opus_tasks = 0, minimax_cost_usd = 0,
                status = Completed\<rparr>) [0..<10]"

definition full_document :: UsageData where
  "full_document =
     \<lparr>current_window = Some sample_window, daily_totals = Some sample_totals,
      recent_requests = Some sample_log, pipeline_runs = Some sample_runs, provider = None\<rparr>"

definition sample_context :: PipelineContext where
  "sample_context =
     \<lparr>ctx_skill_chain = [''review''], ctx_findings_total = Some 4, minimax_eligible = Some 3,
      opus_required = Some 1\<rparr>"

definition pipeline_params :: RecordParams where
  "pipeline_params =
     \<lparr>p_type = Batch, taskCount = 3, inputTokens = 30, outputTokens = 60, costUsd = 0,
      responseTimeMs = 150, p_caller = Some ''review'', p_error = None,
      failedCount = None, pipeline = Some sample_context\<rparr>"

text \<open>Five tasks, for a quota of three.\<close>

definition five_tasks :: "BatchTask list" where
  "five_tasks = map sample_task [''a'', ''b'', ''c'', ''d'', ''e'']"

section \<open>The batch loop\<close>

lemma push_settled_eq:
  "push_settled chunk chunkResults results = results @ map2 settled_result chunk chunkResults"
  by (induction chunk chunkResults results rule: push_settled.induct) simp_all

lemma run_chunk_eq:
  "run_chunk cl order chunk (results, events) =
     (results @ map2 (\<lambda>n t. settled_result t (processTask cl n t))
                  [length results ..< length results + length chunk] chunk,
      events @ group_events order [length results ..< length results + length chunk])"
proof -
  have "map2 settled_result chunk (map2 (processTask cl) ns chunk) =
        map2 (\<lambda>n t. settled_result t (processTask cl n t)) ns chunk"
    if "length ns = length chunk" for ns
    using that by (induction ns chunk rule: list_induct2) simp_all
  then show ?thesis
    by (simp add: run_chunk_def push_settled_eq group_events_def Let_def)
qed

lemma js_slice_chunk:
  "0 \<le> i \<Longrightarrow> 1 \<le> c \<Longrightarrow> js_slice xs i (i + c) = take (nat c) (drop (nat i) xs)"
  by (auto simp: js_slice_def Let_def min_def intro: arg_cong2[where f=take])


lemma map2_upt_nth:
  "map2 f [i..<i + length ys] ys = map (\<lambda>k. f k (ys ! (k - i))) [i..<i + length ys]"
  by (rule nth_equalityI) auto

lemma chunk_results:
  assumes "i < length tasks" "0 < n"
  shows "map2 f [i..<i + length (take n (drop i tasks))] (take n (drop i tasks)) =
         map (\<lambda>k. f k (tasks ! k)) [i..<min (i + n) (length tasks)]"
  using assms by (intro nth_equalityI) (auto simp: min_def split: if_splits)

lemma take_upt_min: "take n [i..<m] = [i..<min (i + n) m]"
  by (cases "i + n \<le> m") (simp_all add: min_def)

lemma consecutive_groups_upt:
  assumes "0 < n" "i < m"
  shows "consecutive_groups n [i..<m] =
           [i..<min (i + n) m] # consecutive_groups n [min (i + n) m..<m]"
proof -
  have ne: "\<not> (n = 0 \<or> [i..<m] = [])" using assms by simp
  have "consecutive_groups n [i..<m] =
          take n [i..<m] # consecutive_groups n (drop n [i..<m])"
    by (subst consecutive_groups.simps) (simp only: ne if_False)
  moreover have "take n [i..<m] = [i..<min (i + n) m]" by (rule take_upt_min)
  moreover have "drop n [i..<m] = [min (i + n) m..<m]"
    by (cases "i + n \<le> m") (simp_all add: min_def)
  ultimately show ?thesis by simp
qed

lemma upt_split: "i \<le> j \<Longrightarrow> j \<le> m \<Longrightarrow> [i..<j] @ [j..<m] = [i..<m]"
  using upt_add_eq_append[of i j "m - j"] by simp

lemma processBatch_loop_closed:
  assumes C: "1 \<le> C"
  shows "length results = min i (length tasks) \<Longrightarrow>
         processBatch_loop cl order tasks C (int i) (results, events) =
           Some (results @ map (\<lambda>k. settled_result (tasks ! k) (processTask cl k (tasks ! k)))
                             [i..<length tasks],
                 events @ concat (map (group_events order)
                                   (consecutive_groups (nat C) [i..<length tasks])))"
proof (induction "length tasks - i" arbitrary: i results events rule: less_induct)
  case less
  let ?f = "\<lambda>n t. settled_result t (processTask cl n t)"
  let ?g = "\<lambda>k. settled_result (tasks ! k) (processTask cl k (tasks ! k))"
  show ?case
  proof (cases "i < length tasks")
    case False
    have nil: "[i..<length tasks] = []" using False by simp
    have "consecutive_groups (nat C) [] = ([] :: nat list list)"
      by (subst consecutive_groups.simps) simp
    then show ?thesis
      using False by (subst processBatch_loop.simps) (simp add: nil)
  next
    case True
    define n where "n = nat C"
    have n: "0 < n" "int i + C = int (i + n)" using C by (auto simp: n_def)
    define chunk where "chunk = take n (drop i tasks)"
    define j where "j = min (i + n) (length tasks)"
    have lr: "length results = i" using less.prems True by simp
    have ij: "i < j" "j \<le> length tasks" using True n(1) by (auto simp: j_def)
    have lenchunk: "i + length chunk = j"
      using True n(1) by (auto simp: chunk_def j_def min_def)
    have slice: "js_slice tasks (int i) (int i + C) = chunk"
      using C by (simp add: js_slice_chunk chunk_def n_def)
    have "map2 ?f [i..<i + length chunk] chunk = map ?g [i..<j]"
      unfolding chunk_def j_def using True n(1) by (rule chunk_results)
    then have step: "run_chunk cl order chunk (results, events) =
                  (results @ map ?g [i..<j], events @ group_events order [i..<j])"
      unfolding run_chunk_eq lr by (simp only: lenchunk)
    have rest: "[i + n..<length tasks] = [j..<length tasks]"
      by (cases "i + n \<le> length tasks") (simp_all add: j_def min_def)
    have groups: "consecutive_groups n [i..<length tasks] =
                    [i..<j] # consecutive_groups n [j..<length tasks]"
      unfolding j_def using n(1) True by (rule consecutive_groups_upt)
    have "length (results @ map ?g [i..<j]) = min (i + n) (length tasks)"
      using lr ij by (simp add: j_def)
    moreover have "length tasks - (i + n) < length tasks - i"
      using True n(1) by simp
    ultimately have IH: "processBatch_loop cl order tasks C (int (i + n))
                (results @ map ?g [i..<j], events @ group_events order [i..<j]) =
              Some ((results @ map ?g [i..<j]) @ map ?g [i + n..<length tasks],
                    (events @ group_events order [i..<j]) @
                    concat (map (group_events order)
                      (consecutive_groups (nat C) [i + n..<length tasks])))"
      by (rule less.hyps[rotated])
    have split: "map ?g [i..<j] @ map ?g [j..<length tasks] = map ?g [i..<length tasks]"
      using upt_split[of i j "length tasks"] ij
      by (simp only: less_imp_le flip: map_append)
    have "processBatch_loop cl order tasks C (int i) (results, events) =
          processBatch_loop cl order tasks C (int i + C)
            (run_chunk cl order (js_slice tasks (int i) (int i + C)) (results, events))"
      using True by (subst processBatch_loop.simps) simp
    also have "\<dots> = Some ((results @ map ?g [i..<j]) @ map ?g [j..<length tasks],
                    (events @ group_events order [i..<j]) @
                    concat (map (group_events order)
                      (consecutive_groups n [j..<length tasks])))"
      by (simp only: n(2) slice[unfolded n(2)] step IH rest flip: n_def)
    also have "\<dots> = Some (results @ map ?g [i..<length tasks],
                 events @ concat (map (group_events order)
                                   (consecutive_groups n [i..<length tasks])))"
      by (simp only: groups append_assoc split list.map concat.simps)
    finally show ?thesis by (simp only: n_def)
  qed
qed

lemma consecutive_groups_concat: "0 < n \<Longrightarrow> concat (consecutive_groups n xs) = xs"
proof (induction n xs rule: consecutive_groups.induct)
  case (1 n xs)
  then show ?case by (subst consecutive_groups.simps) auto
qed

lemma consecutive_groups_length:
  "g \<in> set (consecutive_groups n xs) \<Longrightarrow> length g \<le> n \<and> g \<noteq> []"
proof (induction n xs rule: consecutive_groups.induct)
  case (1 n xs)
  from "1.prems" have ne: "\<not> (n = 0 \<or> xs = [])"
    by (subst (asm) consecutive_groups.simps) (auto split: if_splits)
  from "1.prems" ne have "g = take n xs \<or> g \<in> set (consecutive_groups n (drop n xs))"
    by (subst (asm) consecutive_groups.simps) auto
  then show ?case using "1.IH"[OF ne] ne by auto
qed

lemma outstanding_append: "outstanding (xs @ ys) = outstanding xs + outstanding ys"
  by (induction xs rule: outstanding.induct) simp_all

lemma outstanding_Dispatch: "outstanding (map Dispatch ns) = int (length ns)"
  by (induction ns) simp_all

lemma outstanding_Settle: "outstanding (map Settle ns) = - int (length ns)"
  by (induction ns) simp_all

lemma group_events_prefix:
  assumes "length (order g) = length g" "prefix p (group_events order g)"
  shows "0 \<le> outstanding p \<and> outstanding p \<le> int (length g)"
proof -
  from assms(2) consider "prefix p (map Dispatch g)"
    | q where "p = map Dispatch g @ q" "prefix q (map Settle (order g))"
    by (auto simp: group_events_def prefix_append)
  then show ?thesis
  proof cases
    case 1
    then obtain ns where "p = map Dispatch ns" "prefix ns g"
      using prefix_map_rightE by blast
    then show ?thesis
      using prefix_length_le[of ns g] by (simp add: outstanding_Dispatch)
  next
    case 2
    then obtain ns where "q = map Settle ns" "prefix ns (order g)"
      using prefix_map_rightE by blast
    then show ?thesis
      using prefix_length_le[of ns "order g"] assms(1) 2(1)
      by (simp add: outstanding_append outstanding_Dispatch outstanding_Settle)
  qed
qed

lemma group_events_settled:
  "length (order g) = length g \<Longrightarrow> outstanding (group_events order g) = 0"
  by (simp add: group_events_def outstanding_append outstanding_Dispatch outstanding_Settle)

lemma groups_events_prefix:
  assumes "\<And>g. length (order g) = length g" "0 \<le> C"
    "\<forall>g \<in> set gs. int (length g) \<le> C"
    "prefix p (concat (map (group_events order) gs))"
  shows "0 \<le> outstanding p \<and> outstanding p \<le> C"
  using assms(3,4)
proof (induction gs arbitrary: p)
  case Nil
  then show ?case using assms(2) by simp
next
  case (Cons g gs)
  from Cons.prems(2) consider "prefix p (group_events order g)"
    | q where "p = group_events order g @ q" "prefix q (concat (map (group_events order) gs))"
    by (auto simp: prefix_append)
  then show ?case
  proof cases
    case 1
    then show ?thesis
      using group_events_prefix[OF assms(1) 1] Cons.prems(1) by simp
  next
    case 2
    then show ?thesis
      using Cons.IH[of q] Cons.prems(1)
      by (simp add: outstanding_append group_events_settled[OF assms(1)])
  qed
qed


lemma processBatch_loop_start:
  assumes "1 \<le> C"
  shows "processBatch_loop cl order tasks C 0 ([], []) =
           Some (map (\<lambda>k. settled_result (tasks ! k) (processTask cl k (tasks ! k)))
                   [0..<length tasks],
                 concat (map (group_events order)
                          (consecutive_groups (nat C) [0..<length tasks])))"
  using processBatch_loop_closed[OF assms, of "[]" 0 tasks cl order "[]"] by simp

lemma foldl_plus_sum_list:
  "foldl (\<lambda>sum r. sum + f r) a xs = (a::int) + sum_list (map f xs)"
  by (induction xs arbitrary: a) simp_all

lemma settled_result_id: "result_id (settled_result task (processTask cl k task)) = task_id task"
  by (simp add: settled_result_def processTask_def split: sum.splits)

lemma settled_result_rejected:
  "processTask cl k task = Inl r \<Longrightarrow>
   settled_result task (processTask cl k task) =
     \<lparr>result_id = task_id task, response = [],
      usage = \<lparr>input_tokens = 0, output_tokens = 0\<rparr>, success = False,
      error = Some (reason_message r)\<rparr>"
  by (simp add: settled_result_def)

lemma settled_result_failed_usage:
  "\<not> success (settled_result task (processTask cl k task)) \<Longrightarrow>
   usage (settled_result task (processTask cl k task)) = \<lparr>input_tokens = 0, output_tokens = 0\<rparr>"
  by (cases "cl k (prompt task) \<lparr>opt_system = system task, opt_max_tokens = max_tokens task,
              opt_temperature = None\<rparr>") (simp_all add: settled_result_def processTask_def)

lemma sum_list_successes:
  assumes "\<And>r. r \<in> set rs \<Longrightarrow> \<not> success r \<Longrightarrow> f r = (0::int)"
  shows "sum_list (map f rs) = sum_list (map f (filter success rs))"
  using assms by (induction rs) auto

lemma processBatch_eq:
  assumes "1 \<le> (case concurrency of Some c \<Rightarrow> c | None \<Rightarrow> defaultConcurrency bp)"
    and "rs = map (\<lambda>k. settled_result (tasks ! k) (processTask (client bp) k (tasks ! k)))
                [0..<length tasks]"
  shows "processBatch bp order startTime endTime tasks concurrency =
           Some ((rs,
                  \<lparr>total_tasks = int (length tasks),
                   succeeded = int (length (filter success rs)),
                   failed = int (length tasks) - int (length (filter success rs)),
                   total_input_tokens = sum_list (map (\<lambda>r. input_tokens (usage r)) rs),
                   total_output_tokens = sum_list (map (\<lambda>r. output_tokens (usage r)) rs),
                   total_cost_usd =
                     estimateCost
                       \<lparr>input_tokens = sum_list (map (\<lambda>r. input_tokens (usage r)) rs),
                        output_tokens = sum_list (map (\<lambda>r. output_tokens (usage r)) rs)\<rparr>,
                   duration_ms = endTime - startTime\<rparr>),
                 concat (map (group_events order)
                   (consecutive_groups
                      (nat (case concurrency of Some c \<Rightarrow> c | None \<Rightarrow> defaultConcurrency bp))
                      [0..<length tasks])))"
  unfolding processBatch_def Let_def processBatch_loop_start[OF assms(1)] assms(2)[symmetric]
  by (simp only: option.case prod.case foldl_plus_sum_list add_0)


text \<open>Without a positive limit the loop never leaves a task list that is not empty.\<close>

lemma processBatch_loop_returns_only_past_the_end:
  assumes "processBatch_loop cl order tasks maxConcurrent i st = Some st'"
  shows "maxConcurrent \<le> 0 \<longrightarrow> int (length tasks) \<le> i"
proof (rule processBatch_loop.raw_induct
    [where P = "\<lambda>cl order tasks maxConcurrent i st st'.
                  maxConcurrent \<le> 0 \<longrightarrow> int (length tasks) \<le> i", OF _ assms],
    goal_cases)
  case (1 loop cl order tasks maxConcurrent i st st')
  show ?case
  proof (intro impI, rule ccontr)
    assume mc: "maxConcurrent \<le> 0" and "\<not> int (length tasks) \<le> i"
    then have lt: "i < int (length tasks)" by simp
    with 1(2) have "loop cl order tasks maxConcurrent (i + maxConcurrent)
            (run_chunk cl order (js_slice tasks i (i + maxConcurrent)) st) = Some st'"
      by simp
    then have "maxConcurrent \<le> 0 \<longrightarrow> int (length tasks) \<le> i + maxConcurrent"
      by (rule 1(1))
    with lt mc show False by simp
  qed
qed

lemma processBatch_without_positive_limit:
  assumes "(case concurrency of Some c \<Rightarrow> c | None \<Rightarrow> defaultConcurrency bp) \<le> 0"
    and "tasks \<noteq> []"
  shows "processBatch bp order startTime endTime tasks concurrency = None"
proof (cases "processBatch_loop (client bp) order tasks
                (case concurrency of Some c \<Rightarrow> c | None \<Rightarrow> defaultConcurrency bp) 0 ([], [])")
  case None
  then show ?thesis by (simp add: processBatch_def)
next
  case (Some st')
  from processBatch_loop_returns_only_past_the_end[OF Some] assms
  show ?thesis by simp
qed

lemma processBatch_no_tasks:
  "\<exists>summary. processBatch bp order startTime endTime [] concurrency = Some (([], summary), [])"
proof -
  have "processBatch_loop (client bp) order []
          (case concurrency of Some c \<Rightarrow> c | None \<Rightarrow> defaultConcurrency bp) 0 ([], []) =
        Some ([], [])"
    by (subst processBatch_loop.simps) simp
  then show ?thesis by (simp add: processBatch_def Let_def)
qed

section \<open>Claims on the batch dispatcher\<close>

text \<open>
  C1, as the code has it. For every list of tasks and every concurrency limit (given, or
  the default when omitted) of at least one, and for the empty list with any limit,
  \<open>processBatch\<close> returns, its results are as many as the tasks, and the result at each index
  carries the id of the task at that index, whichever calls fail and in whatever order the
  calls settle.
\<close>

theorem processBatch_results_in_task_order:
  assumes "1 \<le> (case concurrency of Some c \<Rightarrow> c | None \<Rightarrow> defaultConcurrency bp) \<or> tasks = []"
  shows "\<exists>results summary events.
           processBatch bp order startTime endTime tasks concurrency =
             Some ((results, summary), events) \<and>
           length results = length tasks \<and>
           (\<forall>i < length tasks. result_id (results ! i) = task_id (tasks ! i))"
proof (cases "tasks = []")
  case True
  then show ?thesis
    using processBatch_no_tasks[of bp order startTime endTime concurrency] by auto
next
  case False
  with assms have limit: "1 \<le> (case concurrency of Some c \<Rightarrow> c | None \<Rightarrow> defaultConcurrency bp)"
    by simp
  show ?thesis
    unfolding processBatch_eq[OF limit refl]
    by (simp add: settled_result_id)
qed

theorem processBatch_results_in_task_order_witness:
  "\<exists>results summary events.
     processBatch sample_processor rev 0 90 sample_tasks (Some 2) =
       Some ((results, summary), events) \<and>
     length results = 3 \<and>
     result_id (results ! 0) = ''a'' \<and> result_id (results ! 1) = ''b'' \<and>
     result_id (results ! 2) = ''c''"
  using processBatch_results_in_task_order[where concurrency = "Some 2"
      and bp = sample_processor and order = rev and startTime = 0 and endTime = 90
      and tasks = sample_tasks]
  by (auto simp: sample_tasks_def sample_task_def)

text \<open>
  C1 as it is stated fails: with the default limit configured as 0 and no limit given, or
  with the limit 0 given, \<open>processBatch\<close> does not return for three tasks.
\<close>

theorem processBatch_limit_zero_counterexample:
  "processBatch \<lparr>client = sample_client, defaultConcurrency = 0\<rparr> rev 0 90 sample_tasks None = None \<and>
   processBatch sample_processor rev 0 90 sample_tasks (Some 0) = None"
proof -
  have ne: "sample_tasks \<noteq> []" by (simp add: sample_tasks_def)
  have "processBatch \<lparr>client = sample_client, defaultConcurrency = 0\<rparr> rev 0 90 sample_tasks None = None"
    by (rule processBatch_without_positive_limit) (simp_all add: ne)
  moreover have "processBatch sample_processor rev 0 90 sample_tasks (Some 0) = None"
    by (rule processBatch_without_positive_limit) (simp_all add: ne)
  ultimately show ?thesis by simp
qed



text \<open>
  C10. The result of a task whose Gateway call fails has the empty response and a usage
  of zero input and zero output tokens; the summary's token totals are therefore the sums
  over the successful results alone, and its cost is the estimate for those sums.
\<close>

theorem processBatch_failed_tasks_cost_nothing:
  assumes "1 \<le> (case concurrency of Some c \<Rightarrow> c | None \<Rightarrow> defaultConcurrency bp)"
  shows "\<exists>results summary events.
           processBatch bp order startTime endTime tasks concurrency =
             Some ((results, summary), events) \<and>
           (\<forall>k < length tasks. \<forall>r.
              client bp k (prompt (tasks ! k))
                \<lparr>opt_system = system (tasks ! k), opt_max_tokens = max_tokens (tasks ! k),
                 opt_temperature = None\<rparr> = Inl r \<longrightarrow>
              response (results ! k) = [] \<and>
              usage (results ! k) = \<lparr>input_tokens = 0, output_tokens = 0\<rparr>) \<and>
           total_input_tokens summary =
             sum_list (map (\<lambda>r. input_tokens (usage r)) (filter success results)) \<and>
           total_output_tokens summary =
             sum_list (map (\<lambda>r. output_tokens (usage r)) (filter success results)) \<and>
           total_cost_usd summary =
             estimateCost
               \<lparr>input_tokens =
                  sum_list (map (\<lambda>r. input_tokens (usage r)) (filter success results)),
                output_tokens =
                  sum_list (map (\<lambda>r. output_tokens (usage r)) (filter success results))\<rparr>"
proof -
  define rs where "rs = map (\<lambda>k. settled_result (tasks ! k) (processTask (client bp) k (tasks ! k)))
                [0..<length tasks]"
  have zero: "usage x = \<lparr>input_tokens = 0, output_tokens = 0\<rparr>"
    if "x \<in> set rs" "\<not> success x" for x
    using that settled_result_failed_usage by (auto simp: rs_def)
  have inp: "sum_list (map (\<lambda>r. input_tokens (usage r)) rs) =
             sum_list (map (\<lambda>r. input_tokens (usage r)) (filter success rs))"
    by (rule sum_list_successes) (simp add: zero)
  have outp: "sum_list (map (\<lambda>r. output_tokens (usage r)) rs) =
             sum_list (map (\<lambda>r. output_tokens (usage r)) (filter success rs))"
    by (rule sum_list_successes) (simp add: zero)
  have rej: "response (rs ! k) = [] \<and> usage (rs ! k) = \<lparr>input_tokens = 0, output_tokens = 0\<rparr>"
    if "k < length tasks" "client bp k (prompt (tasks ! k))
                \<lparr>opt_system = system (tasks ! k), opt_max_tokens = max_tokens (tasks ! k),
                 opt_temperature = None\<rparr> = Inl r" for k r
  proof -
    have "processTask (client bp) k (tasks ! k) = Inl r"
      using that(2) by (simp add: processTask_def)
    from settled_result_rejected[OF this] that(1) show ?thesis by (simp add: rs_def)
  qed
  show ?thesis
    unfolding processBatch_eq[OF assms(1) rs_def]
    using rej inp outp by (simp del: ex_simps all_simps)
qed

theorem processBatch_failed_tasks_cost_nothing_witness:
  "\<exists>results summary events.
     processBatch sample_processor rev 0 90 sample_tasks (Some 2) =
       Some ((results, summary), events) \<and>
     response (results ! 1) = [] \<and>
     usage (results ! 1) = \<lparr>input_tokens = 0, output_tokens = 0\<rparr> \<and>
     total_input_tokens summary =
       sum_list (map (\<lambda>r. input_tokens (usage r)) (filter success results)) \<and>
     total_output_tokens summary =
       sum_list (map (\<lambda>r. output_tokens (usage r)) (filter success results)) \<and>
     total_cost_usd summary =
       estimateCost
         \<lparr>input_tokens =
            sum_list (map (\<lambda>r. input_tokens (usage r)) (filter success results)),
          output_tokens =
            sum_list (map (\<lambda>r. output_tokens (usage r)) (filter success results))\<rparr>"
proof -
  have "1 < length sample_tasks" by (simp add: sample_tasks_def)
  moreover have "client sample_processor 1 (prompt (sample_tasks ! 1))
        \<lparr>opt_system = system (sample_tasks ! 1), opt_max_tokens = max_tokens (sample_tasks ! 1),
         opt_temperature = None\<rparr> = Inl (ErrorObj ''MiniMax API error 500: overloaded'')"
    by (simp add: sample_processor_def sample_client_def)
  ultimately show ?thesis
    using processBatch_failed_tasks_cost_nothing[where concurrency = "Some 2"
      and bp = sample_processor and order = rev and startTime = 0 and endTime = 90
      and tasks = sample_tasks]
    by (simp add: sample_processor_def) blast
qed

text \<open>
  C9. For every task list and every limit of at least one, the tasks are dispatched in
  consecutive groups of at most that many, every call of a group settles before the next
  group is dispatched, and so, after any prefix of the events of the run, at most that many
  Gateway calls are outstanding, in whatever order the calls of a group settle.
\<close>

theorem processBatch_bounded_concurrency:
  assumes "1 \<le> (case concurrency of Some c \<Rightarrow> c | None \<Rightarrow> defaultConcurrency bp)"
    and "\<And>calls. mset (order calls) = mset calls"
    and "groups = consecutive_groups
           (nat (case concurrency of Some c \<Rightarrow> c | None \<Rightarrow> defaultConcurrency bp))
           [0..<length tasks]"
  shows "\<exists>results summary events.
           processBatch bp order startTime endTime tasks concurrency =
             Some ((results, summary), events) \<and>
           concat groups = [0..<length tasks] \<and>
           (\<forall>g \<in> set groups.
              int (length g) \<le> (case concurrency of Some c \<Rightarrow> c | None \<Rightarrow> defaultConcurrency bp)) \<and>
           events = concat (map (group_events order) groups) \<and>
           (\<forall>p. prefix p events \<longrightarrow>
              0 \<le> outstanding p \<and>
              outstanding p \<le> (case concurrency of Some c \<Rightarrow> c | None \<Rightarrow> defaultConcurrency bp))"
proof -
  define C where "C = (case concurrency of Some c \<Rightarrow> c | None \<Rightarrow> defaultConcurrency bp)"
  have groups: "groups = consecutive_groups (nat C) [0..<length tasks]"
    using assms(3) by (simp add: C_def)
  have C: "1 \<le> C" using assms(1) by (simp add: C_def)
  have len: "length (order calls) = length calls" for calls
    using assms(2)[of calls] by (metis size_mset)
  have cat: "concat groups = [0..<length tasks]"
    unfolding groups using C by (intro consecutive_groups_concat) simp
  have small: "\<forall>g \<in> set groups. int (length g) \<le> C"
  proof
    fix g assume "g \<in> set groups"
    then have "length g \<le> nat C"
      unfolding groups using consecutive_groups_length by blast
    then show "int (length g) \<le> C" using C by simp
  qed
  have bound: "0 \<le> outstanding p \<and> outstanding p \<le> C"
    if "prefix p (concat (map (group_events order) groups))" for p
    using groups_events_prefix[OF len _ small that] C by simp
  show ?thesis
    unfolding processBatch_eq[OF assms(1) refl] C_def[symmetric] groups[symmetric]
    using cat small bound by (intro exI conjI refl) auto
qed

theorem processBatch_bounded_concurrency_witness:
  "\<exists>results summary.
     processBatch sample_processor rev 0 90 sample_tasks (Some 2) =
       Some ((results, summary),
             [Dispatch 0, Dispatch 1, Settle 1, Settle 0, Dispatch 2, Settle 2]) \<and>
     outstanding [Dispatch 0, Dispatch 1] \<le> 2"
proof -
  have perm: "\<And>calls :: nat list. mset (rev calls) = mset calls" by simp
  have one: "(1::int) \<le> (case Some 2 of Some c \<Rightarrow> c | None \<Rightarrow> defaultConcurrency sample_processor)"
    by simp
  have three: "length sample_tasks = 3" by (simp add: sample_tasks_def)
  have two: "nat (case Some 2 of Some c \<Rightarrow> c | None \<Rightarrow> defaultConcurrency sample_processor) = 2"
    by simp
  have groups: "[[0, 1], [2::nat]] = consecutive_groups
           (nat (case Some 2 of Some c \<Rightarrow> c | None \<Rightarrow> defaultConcurrency sample_processor))
           [0..<length sample_tasks]"
    unfolding three two by code_simp
  obtain results summary events where
    run: "processBatch sample_processor rev 0 90 sample_tasks (Some 2) =
            Some ((results, summary), events)"
    and ev: "events = concat (map (group_events rev) [[0, 1], [2]])"
    and bound: "\<forall>p. prefix p events \<longrightarrow> 0 \<le> outstanding p \<and> outstanding p \<le> 2"
    using processBatch_bounded_concurrency[where concurrency = "Some 2"
      and bp = sample_processor and order = rev and startTime = 0 and endTime = 90
      and tasks = sample_tasks, OF one perm groups]
    by auto
  have events: "events = [Dispatch 0, Dispatch 1, Settle 1, Settle 0, Dispatch 2, Settle 2]"
    by (simp add: ev group_events_def)
  have "prefix [Dispatch 0, Dispatch 1] events" by (simp add: events)
  with bound have "outstanding [Dispatch 0, Dispatch 1] \<le> 2" by blast
  with run events show ?thesis by blast
qed

section \<open>The tracker\<close>

lemma keep_last_drop: "0 < n \<Longrightarrow> keep_last n xs = drop (length xs - nat n) xs"
  by (auto simp: keep_last_def js_slice_from_def js_slice_def Let_def max_def nat_diff_distrib
      intro!: arg_cong2[where f = drop])

lemma length_keep_last: "0 < n \<Longrightarrow> length (keep_last n xs) = min (length xs) (nat n)"
  by (simp add: keep_last_drop)

lemma keep_last_pushed:
  "0 < n \<Longrightarrow> keep_last n (xs @ [x]) = drop (length xs + 1 - nat n) (xs @ [x])"
  by (simp add: keep_last_drop)

lemma drop_pushed_update:
  assumes "k \<le> length xs"
  shows "(drop k (xs @ [a]))[length (drop k (xs @ [a])) - 1 := b] = drop k (xs @ [b])"
  using assms by (simp add: list_update_append)

lemma length_update_found: "length (update_found P f xs) = length xs"
  by (induction xs) simp_all

lemma ensureLoaded_no_window:
  assumes "held = (case tr of None \<Rightarrow> loadUsageData now (stored dk) | Some d \<Rightarrow> d)"
    and "current_window held = None"
  shows "ensureLoaded now dk tr = (Inl (TypeError ''window_end''), Some held)"
  using assms(2) unfolding ensureLoaded_def assms(1)[symmetric] Let_def
  by (simp add: isWindowExpired_def)

lemma ensureLoaded_window:
  assumes "held = (case tr of None \<Rightarrow> loadUsageData now (stored dk) | Some d \<Rightarrow> d)"
    and "current_window held = Some w"
  shows "ensureLoaded now dk tr =
           (Inr (if window_end w \<le> now then held\<lparr>current_window := Some (createNewWindow now)\<rparr>
                 else held),
            Some (if window_end w \<le> now then held\<lparr>current_window := Some (createNewWindow now)\<rparr>
                  else held))"
  using assms(2) unfolding ensureLoaded_def assms(1)[symmetric] Let_def
  by (simp add: isWindowExpired_def)

lemma ensureLoaded_Inr:
  assumes "ensureLoaded now dk tr = (Inr data, tr1)"
  shows "tr1 = Some data \<and> (\<exists>w. current_window data = Some w)"
proof (cases "current_window (case tr of None \<Rightarrow> loadUsageData now (stored dk) | Some d \<Rightarrow> d)")
  case None
  from ensureLoaded_no_window[OF refl None] assms show ?thesis by simp
next
  case (Some w)
  from ensureLoaded_window[OF refl Some] assms Some show ?thesis by (auto split: if_splits)
qed

lemma ensureLoaded_Inl:
  assumes "ensureLoaded now dk tr = (Inl err, tr1)"
  shows "tr1 = Some (case tr of None \<Rightarrow> loadUsageData now (stored dk) | Some d \<Rightarrow> d)"
proof (cases "current_window (case tr of None \<Rightarrow> loadUsageData now (stored dk) | Some d \<Rightarrow> d)")
  case None
  from ensureLoaded_no_window[OF refl None] assms show ?thesis by simp
next
  case (Some w)
  from ensureLoaded_window[OF refl Some] assms show ?thesis by (auto split: if_splits)
qed

lemma recordRequest_not_loaded:
  "ensureLoaded now dk tr = (Inl err, tr1) \<Longrightarrow>
   recordRequest now params dk tr = (Inl err, tr1, dk)"
  by (simp add: recordRequest_def)

lemma recordRequest_fields:
  assumes "ensureLoaded now dk tr = (Inr data, tr1)"
    and "recordRequest now params dk tr = (saved, tr', dk')"
    and "entry =
        \<lparr>timestamp = now, req_type = p_type params, task_count = taskCount params,
          log_input_tokens = inputTokens params, log_output_tokens = outputTokens params,
          cost_usd = costUsd params, response_time_ms = responseTimeMs params,
          caller = p_caller params, log_error = truncatedError (p_error params),
          failed_count = failedCount params\<rparr>"
    and "dailyEntry = \<lparr>date = getTodayDate now, d_prompt_count = 0, d_total_input_tokens = 0,
                 d_total_output_tokens = 0, d_estimated_cost_usd = 0\<rparr>"
  shows "\<exists>d' w. tr' = Some d' \<and> current_window data = Some w \<and>
     current_window d' = Some (add_to_window params w) \<and>
     recent_requests d' = Some (keep_last 200
       ((case recent_requests data of None \<Rightarrow> [] | Some rs \<Rightarrow> rs) @ [entry])) \<and>
     provider d' = provider data \<and>
     (case daily_totals data of
        None \<Rightarrow> daily_totals d' = None \<and> pipeline_runs d' = pipeline_runs data \<and>
                 saved = Inl (TypeError ''find'') \<and> dk' = dk
      | Some totals \<Rightarrow>
          (saved, dk') = saveUsageData d' dk \<and>
          daily_totals d' =
            (case find (\<lambda>d. date d = getTodayDate now) totals of
               Some found \<Rightarrow>
                 Some (update_found (\<lambda>d. date d = getTodayDate now) (add_to_daily params) totals)
             | None \<Rightarrow>
                 Some ((keep_last 30 (totals @ [dailyEntry]))
                   [length (keep_last 30 (totals @ [dailyEntry])) - 1 :=
                    add_to_daily params dailyEntry])) \<and>
          pipeline_runs d' =
            (case pipeline params of
               Some ctx \<Rightarrow>
                 if truthy (p_caller params)
                 then Some (keep_last 10
                    ((case pipeline_runs data of None \<Rightarrow> [] | Some rs \<Rightarrow> rs) @
                     [\<lparr>run_id = ''run-'' @ show_int now, started = now, completed = Some now,
                       skill_chain = ctx_skill_chain ctx,
                       findings_total =
                         (case ctx_findings_total ctx of Some n \<Rightarrow> n | None \<Rightarrow> 0),
                       findings_by_difficulty = [],
                       minimax_tasks = (case minimax_eligible ctx of Some n \<Rightarrow> n | None \<Rightarrow> 0),
                       opus_tasks = (case opus_required ctx of Some n \<Rightarrow> n | None \<Rightarrow> 0),
                       minimax_cost_usd = costUsd params,
                       status = (if truthy (p_error params) then Failed else Completed)\<rparr>]))
                 else pipeline_runs data
             | None \<Rightarrow> pipeline_runs data))"
proof -
  from ensureLoaded_Inr[OF assms(1)] obtain w where w: "current_window data = Some w" by auto
  define d1 where "d1 = data\<lparr>recent_requests := Some (keep_last 200
                   ((case recent_requests data of None \<Rightarrow> [] | Some rs \<Rightarrow> rs) @ [entry]))\<rparr>"
  define d2 where "d2 = d1\<lparr>current_window := Some (add_to_window params w)\<rparr>"
  have d1: "current_window d1 = Some w" "daily_totals d1 = daily_totals data"
    "pipeline_runs d1 = pipeline_runs data" "provider d1 = provider data"
    "recent_requests d1 = Some (keep_last 200
                   ((case recent_requests data of None \<Rightarrow> [] | Some rs \<Rightarrow> rs) @ [entry]))"
    by (simp_all add: d1_def w)
  have d2: "current_window d2 = Some (add_to_window params w)"
    "daily_totals d2 = daily_totals data"
    "pipeline_runs d2 = pipeline_runs data" "provider d2 = provider data"
    "recent_requests d2 = recent_requests d1"
    by (simp_all add: d2_def d1)
  show ?thesis
  proof (cases "daily_totals data")
    case None
    have "recordRequest now params dk tr = (Inl (TypeError ''find''), Some d2, dk)"
      unfolding recordRequest_def assms(1) Let_def d2_def d1_def assms(3)
      by (simp add: w None split del: if_split cong: if_cong)
    with assms(2) have "tr' = Some d2" "saved = Inl (TypeError ''find'')" "dk' = dk" by simp_all
    then show ?thesis
      by (intro exI[of _ d2] exI[of _ w]) (simp add: d2 d1 w None)
  next
    case (Some totals)
    define today where "today = getTodayDate now"
    define d3 where "d3 =
            (case find (\<lambda>d. date d = today) totals of
               Some found \<Rightarrow>
                 d2\<lparr>daily_totals :=
                   Some (update_found (\<lambda>d. date d = today) (add_to_daily params) totals)\<rparr>
             | None \<Rightarrow>
                 d2\<lparr>daily_totals :=
                       Some ((keep_last 30 (totals @ [dailyEntry]))
                              [length (keep_last 30 (totals @ [dailyEntry])) - 1 :=
                               add_to_daily params dailyEntry])\<rparr>)"
    define mkrun where "mkrun = (\<lambda>ctx :: PipelineContext.
                          \<lparr>run_id = ''run-'' @ show_int now, started = now,
                           completed = Some now, skill_chain = ctx_skill_chain ctx,
                           findings_total =
                             (case ctx_findings_total ctx of Some n \<Rightarrow> n | None \<Rightarrow> 0),
                           findings_by_difficulty = [],
                           minimax_tasks =
                             (case minimax_eligible ctx of Some n \<Rightarrow> n | None \<Rightarrow> 0),
                           opus_tasks = (case opus_required ctx of Some n \<Rightarrow> n | None \<Rightarrow> 0),
                           minimax_cost_usd = costUsd params,
                           status = (if truthy (p_error params) then Failed else Completed)\<rparr>)"
    define d4 where "d4 =
            (case pipeline params of
               Some ctx \<Rightarrow>
                 if truthy (p_caller params)
                 then d3\<lparr>pipeline_runs := Some (keep_last 10
                         ((case pipeline_runs d3 of None \<Rightarrow> [] | Some rs \<Rightarrow> rs) @ [mkrun ctx]))\<rparr>
                 else d3
             | None \<Rightarrow> d3)"
    have run: "recordRequest now params dk tr =
               (case saveUsageData d4 dk of (saved, dk') \<Rightarrow> (saved, Some d4, dk'))"
      unfolding recordRequest_def assms(1) Let_def d4_def d3_def mkrun_def today_def d2_def d1_def
        assms(3,4)
      by (simp add: w Some split del: if_split cong: if_cong)
    have d3: "current_window d3 = current_window d2"
      "pipeline_runs d3 = pipeline_runs d2" "provider d3 = provider d2"
      "recent_requests d3 = recent_requests d2"
      by (simp_all add: d3_def split: option.split)
    have d3': "daily_totals d3 =
            (case find (\<lambda>d. date d = today) totals of
               Some found \<Rightarrow>
                 Some (update_found (\<lambda>d. date d = today) (add_to_daily params) totals)
             | None \<Rightarrow>
                 Some ((keep_last 30 (totals @ [dailyEntry]))
                   [length (keep_last 30 (totals @ [dailyEntry])) - 1 :=
                    add_to_daily params dailyEntry]))"
      by (simp add: d3_def split: option.split)
    have d4: "current_window d4 = current_window d3"
      "daily_totals d4 = daily_totals d3" "provider d4 = provider d3"
      "recent_requests d4 = recent_requests d3"
      by (simp_all add: d4_def split: option.split)
    have d4': "pipeline_runs d4 =
            (case pipeline params of
               Some ctx \<Rightarrow>
                 if truthy (p_caller params)
                 then Some (keep_last 10
                    ((case pipeline_runs d3 of None \<Rightarrow> [] | Some rs \<Rightarrow> rs) @ [mkrun ctx]))
                 else pipeline_runs d3
             | None \<Rightarrow> pipeline_runs d3)"
      by (simp add: d4_def split: option.split)
    from assms(2) have res: "tr' = Some d4" "(saved, dk') = saveUsageData d4 dk"
      unfolding run by (auto split: prod.splits)
    have c1: "current_window d4 = Some (add_to_window params w)" by (simp add: d4 d3 d2)
    have c2: "recent_requests d4 = Some (keep_last 200
       ((case recent_requests data of None \<Rightarrow> [] | Some rs \<Rightarrow> rs) @ [entry]))"
      by (simp add: d4 d3 d2 d1)
    have c3: "provider d4 = provider data" by (simp add: d4 d3 d2)
    have c4: "daily_totals d4 =
            (case find (\<lambda>d. date d = getTodayDate now) totals of
               Some found \<Rightarrow>
                 Some (update_found (\<lambda>d. date d = getTodayDate now) (add_to_daily params) totals)
             | None \<Rightarrow>
                 Some ((keep_last 30 (totals @ [dailyEntry]))
                   [length (keep_last 30 (totals @ [dailyEntry])) - 1 :=
                    add_to_daily params dailyEntry]))"
      unfolding d4 d3' today_def by (rule refl)
    have c5: "pipeline_runs d4 =
            (case pipeline params of
               Some ctx \<Rightarrow>
                 if truthy (p_caller params)
                 then Some (keep_last 10
                    ((case pipeline_runs data of None \<Rightarrow> [] | Some rs \<Rightarrow> rs) @
                     [\<lparr>run_id = ''run-'' @ show_int now, started = now, completed = Some now,
                       skill_chain = ctx_skill_chain ctx,
                       findings_total =
                         (case ctx_findings_total ctx of Some n \<Rightarrow> n | None \<Rightarrow> 0),
                       findings_by_difficulty = [],
                       minimax_tasks = (case minimax_eligible ctx of Some n \<Rightarrow> n | None \<Rightarrow> 0),
                       opus_tasks = (case opus_required ctx of Some n \<Rightarrow> n | None \<Rightarrow> 0),
                       minimax_cost_usd = costUsd params,
                       status = (if truthy (p_error params) then Failed else Completed)\<rparr>]))
                 else pipeline_runs data
             | None \<Rightarrow> pipeline_runs data)"
      unfolding d4' d3 d2 mkrun_def by (rule refl)
    show ?thesis
      unfolding Some option.case
      using res w c1 c2 c3 c4 c5 by blast
  qed
qed

lemma window_duration_positive: "now < now + WINDOW_DURATION_MS"
  by (simp add: WINDOW_DURATION_MS_def)

lemma getRemainingPrompts_window:
  assumes "ensureLoaded now dk tr = (Inr data, tr1)" "current_window data = Some w"
  shows "getRemainingPrompts now dk tr =
           (Inr (max 0 (MAX_PROMPTS_PER_WINDOW - prompt_count w)), Some data)"
  using assms ensureLoaded_Inr[OF assms(1)] by (simp add: getRemainingPrompts_def)

lemma recordRequest_window:
  assumes "ensureLoaded now dk tr = (Inr data, tr1)" "current_window data = Some w"
  shows "\<exists>d'. fst (snd (recordRequest now params dk tr)) = Some d' \<and>
              current_window d' = Some (add_to_window params w)"
proof -
  obtain saved tr' dk' where r: "recordRequest now params dk tr = (saved, tr', dk')"
    by (metis prod_cases3)
  from recordRequest_fields[OF assms(1) r refl refl] assms(2) r show ?thesis by auto
qed

lemma keep_last_pushed_last:
  assumes "0 < n"
  shows "keep_last n (xs @ [x]) \<noteq> [] \<and> last (keep_last n (xs @ [x])) = x"
proof -
  have "length xs + 1 - nat n \<le> length xs" using assms by simp
  then have "drop (length xs + 1 - nat n) (xs @ [x]) = drop (length xs + 1 - nat n) xs @ [x]"
    by simp
  then show ?thesis by (simp add: keep_last_pushed[OF assms])
qed

section \<open>Claims on the usage ledger\<close>

text \<open>
  C7, as the code has it. Loading never throws. A document that holds only
  \<open>current_window\<close> and \<open>daily_totals\<close> is loaded with \<open>recent_requests\<close> set to the empty
  list and \<open>provider\<close> to the default, its window and totals kept (\<open>pipeline_runs\<close> stays
  absent). An absent file, a file that is not JSON and a JSON value that is no object give
  the freshly initialized state: a zero window that starts now, empty logs, the default
  provider; the tracker then goes on, with the whole quota remaining.
\<close>

theorem loadUsageData_defaults_and_fallback:
  assumes "fresh =
      \<lparr>current_window = Some
         \<lparr>window_start = now, window_end = now + WINDOW_DURATION_MS, prompt_count = 0,
          w_total_input_tokens = 0, w_total_output_tokens = 0, estimated_cost_usd = 0\<rparr>,
       daily_totals = Some [], recent_requests = Some [], pipeline_runs = None,
       provider = Some
         \<lparr>provider_name = ''minimax-m2.5'',
          pricing = \<lparr>input_per_million = input_per_million PRICING,
                     output_per_million = output_per_million PRICING\<rparr>\<rparr>\<rparr>"
  shows "loadUsageData now
           (Document \<lparr>current_window = Some w, daily_totals = Some totals,
                      recent_requests = None, pipeline_runs = None, provider = None\<rparr>) =
         \<lparr>current_window = Some w, daily_totals = Some totals, recent_requests = Some [],
          pipeline_runs = None,
          provider = Some
            \<lparr>provider_name = ''minimax-m2.5'',
             pricing = \<lparr>input_per_million = input_per_million PRICING,
                        output_per_million = output_per_million PRICING\<rparr>\<rparr>\<rparr> \<and>
         loadUsageData now NoFile = fresh \<and>
         loadUsageData now NotJson = fresh \<and>
         loadUsageData now NotAnObject = fresh \<and>
         getRemainingPrompts now \<lparr>stored = NoFile, write_error = e\<rparr> None =
           (Inr MAX_PROMPTS_PER_WINDOW, Some fresh) \<and>
         getRemainingPrompts now \<lparr>stored = NotJson, write_error = e\<rparr> None =
           (Inr MAX_PROMPTS_PER_WINDOW, Some fresh) \<and>
         getRemainingPrompts now \<lparr>stored = NotAnObject, write_error = e\<rparr> None =
           (Inr MAX_PROMPTS_PER_WINDOW, Some fresh)"
proof -
  have load: "loadUsageData now NoFile = fresh" "loadUsageData now NotJson = fresh"
    "loadUsageData now NotAnObject = fresh"
    by (simp_all add: loadUsageData_def createNewWindow_def assms)
  have w: "current_window fresh = Some (createNewWindow now)"
    by (simp add: assms createNewWindow_def)
  have remaining: "getRemainingPrompts now \<lparr>stored = f, write_error = e\<rparr> None =
           (Inr MAX_PROMPTS_PER_WINDOW, Some fresh)"
    if "loadUsageData now f = fresh" for f
  proof -
    have held: "fresh = (case None of None \<Rightarrow> loadUsageData now (stored \<lparr>stored = f, write_error = e\<rparr>)
                  | Some d \<Rightarrow> d)"
      using that by simp
    have "ensureLoaded now \<lparr>stored = f, write_error = e\<rparr> None = (Inr fresh, Some fresh)"
      using ensureLoaded_window[OF held w] window_duration_positive[of now]
      by (simp add: createNewWindow_def)
    from getRemainingPrompts_window[OF this w] show ?thesis
      by (simp add: createNewWindow_def MAX_PROMPTS_PER_WINDOW_def)
  qed
  have doc: "loadUsageData now
           (Document \<lparr>current_window = Some w, daily_totals = Some totals,
                      recent_requests = None, pipeline_runs = None, provider = None\<rparr>) =
         \<lparr>current_window = Some w, daily_totals = Some totals, recent_requests = Some [],
          pipeline_runs = None,
          provider = Some
            \<lparr>provider_name = ''minimax-m2.5'',
             pricing = \<lparr>input_per_million = input_per_million PRICING,
                        output_per_million = output_per_million PRICING\<rparr>\<rparr>\<rparr>"
    by (simp add: loadUsageData_def)
  show ?thesis
    using doc load remaining[OF load(1)] remaining[OF load(2)] remaining[OF load(3)]
    by (intro conjI)
qed

theorem loadUsageData_defaults_and_fallback_witness:
  "loadUsageData 1000 (Document sample_data) =
     \<lparr>current_window = Some sample_window, daily_totals = Some [], recent_requests = Some [],
      pipeline_runs = None,
      provider = Some
        \<lparr>provider_name = ''minimax-m2.5'',
         pricing = \<lparr>input_per_million = input_per_million PRICING,
                    output_per_million = output_per_million PRICING\<rparr>\<rparr>\<rparr> \<and>
   current_window (loadUsageData 1000 NotJson) =
     Some \<lparr>window_start = 1000, window_end = 18001000, prompt_count = 0,
           w_total_input_tokens = 0, w_total_output_tokens = 0, estimated_cost_usd = 0\<rparr> \<and>
   fst (getRemainingPrompts 1000 \<lparr>stored = NotJson, write_error = None\<rparr> None) = Inr 1000"
  using loadUsageData_defaults_and_fallback[OF refl, of 1000 sample_window "[]" None]
  by (simp add: sample_data_def WINDOW_DURATION_MS_def MAX_PROMPTS_PER_WINDOW_def)

text \<open>
  C7 as it is stated fails for a malformed file that is still a JSON object: the document
  \<open>{}\<close> is loaded as it is, with no window and no daily totals instead of the fresh state,
  and the quota check and the recording that follow throw.
\<close>

theorem loadUsageData_empty_document_counterexample:
  "current_window (loadUsageData 1000 (Document empty_document)) = None \<and>
   daily_totals (loadUsageData 1000 (Document empty_document)) = None \<and>
   fst (getRemainingPrompts 1000 \<lparr>stored = Document empty_document, write_error = None\<rparr> None) =
     Inl (TypeError ''window_end'') \<and>
   fst (recordRequest 1000 sample_params
          \<lparr>stored = Document empty_document, write_error = None\<rparr> None) =
     Inl (TypeError ''window_end'')"
proof -
  have load: "current_window (loadUsageData 1000 (Document empty_document)) = None"
    "daily_totals (loadUsageData 1000 (Document empty_document)) = None"
    by (simp_all add: loadUsageData_def empty_document_def)
  have held: "loadUsageData 1000 (Document empty_document) =
      (case None of None \<Rightarrow> loadUsageData 1000
              (stored \<lparr>stored = Document empty_document, write_error = None\<rparr>)
       | Some d \<Rightarrow> d)"
    by simp
  note thrown = ensureLoaded_no_window[OF held load(1)]
  show ?thesis
    using load recordRequest_not_loaded[OF thrown]
    by (simp add: getRemainingPrompts_def thrown)
qed

text \<open>
  C3. Take the window the tracker holds (in memory, or else as loaded). When it has not
  expired (\<open>now\<close> is before its end), a \<open>record\<close> call adds exactly \<open>task_count\<close> to its
  \<open>prompt_count\<close> and keeps its start and end. When its end time has passed (\<open>now\<close> is at or
  after it), a \<open>record\<close> call and a \<open>get_remaining\<close> call first replace it by a fresh window
  with \<open>prompt_count\<close> 0 and an end at \<open>now\<close> plus the window duration: \<open>get_remaining\<close> answers
  the whole quota and leaves that window, \<open>record\<close> leaves it with \<open>task_count\<close> added.
\<close>

theorem window_accounting:
  assumes "held = (case tr of None \<Rightarrow> loadUsageData now (stored dk) | Some d \<Rightarrow> d)"
    and "current_window held = Some w"
  shows "(now < window_end w \<longrightarrow>
            (\<exists>d' w'. fst (snd (recordRequest now params dk tr)) = Some d' \<and>
               current_window d' = Some w' \<and>
               prompt_count w' = prompt_count w + taskCount params \<and>
               window_start w' = window_start w \<and> window_end w' = window_end w)) \<and>
         (window_end w \<le> now \<longrightarrow>
            (\<exists>d' w'. fst (snd (recordRequest now params dk tr)) = Some d' \<and>
               current_window d' = Some w' \<and>
               w' = add_to_window params (createNewWindow now) \<and>
               prompt_count w' = 0 + taskCount params \<and>
               window_end w' = now + WINDOW_DURATION_MS) \<and>
            (\<exists>d' w'. getRemainingPrompts now dk tr = (Inr MAX_PROMPTS_PER_WINDOW, Some d') \<and>
               current_window d' = Some w' \<and> w' = createNewWindow now \<and>
               prompt_count w' = 0 \<and> window_end w' = now + WINDOW_DURATION_MS))"
proof (intro conjI impI)
  assume active: "now < window_end w"
  from ensureLoaded_window[OF assms] active
  have loaded: "ensureLoaded now dk tr = (Inr held, Some held)" by simp
  from recordRequest_window[OF loaded assms(2), of params]
  show "\<exists>d' w'. fst (snd (recordRequest now params dk tr)) = Some d' \<and>
               current_window d' = Some w' \<and>
               prompt_count w' = prompt_count w + taskCount params \<and>
               window_start w' = window_start w \<and> window_end w' = window_end w"
    by (auto simp: add_to_window_def)
next
  assume expired: "window_end w \<le> now"
  define fresh where "fresh = held\<lparr>current_window := Some (createNewWindow now)\<rparr>"
  from ensureLoaded_window[OF assms] expired
  have loaded: "ensureLoaded now dk tr = (Inr fresh, Some fresh)" by (simp add: fresh_def)
  have w: "current_window fresh = Some (createNewWindow now)" by (simp add: fresh_def)
  from recordRequest_window[OF loaded w, of params]
  show "\<exists>d' w'. fst (snd (recordRequest now params dk tr)) = Some d' \<and>
               current_window d' = Some w' \<and>
               w' = add_to_window params (createNewWindow now) \<and>
               prompt_count w' = 0 + taskCount params \<and>
               window_end w' = now + WINDOW_DURATION_MS"
    by (auto simp: add_to_window_def createNewWindow_def)
  from getRemainingPrompts_window[OF loaded w] w
  show "\<exists>d' w'. getRemainingPrompts now dk tr = (Inr MAX_PROMPTS_PER_WINDOW, Some d') \<and>
               current_window d' = Some w' \<and> w' = createNewWindow now \<and>
               prompt_count w' = 0 \<and> window_end w' = now + WINDOW_DURATION_MS"
    by (auto simp: createNewWindow_def MAX_PROMPTS_PER_WINDOW_def)
qed

theorem window_accounting_witness:
  "(\<exists>d' w'. fst (snd (recordRequest 17999999 (sample_params\<lparr>taskCount := 2\<rparr>) sample_disk
                         (Some sample_data))) = Some d' \<and>
      current_window d' = Some w' \<and> prompt_count w' = 999 \<and> window_end w' = 18000000) \<and>
   (\<exists>d' w'. fst (snd (recordRequest 18000000 (sample_params\<lparr>taskCount := 2\<rparr>) sample_disk
                         (Some sample_data))) = Some d' \<and>
      current_window d' = Some w' \<and> prompt_count w' = 2 \<and> window_end w' = 36000000) \<and>
   (\<exists>d' w'. getRemainingPrompts 18000000 sample_disk (Some sample_data) = (Inr 1000, Some d') \<and>
      current_window d' = Some w' \<and> prompt_count w' = 0 \<and> window_end w' = 36000000)"
proof -
  have held: "sample_data = (case Some sample_data of
                None \<Rightarrow> loadUsageData now (stored sample_disk) | Some d \<Rightarrow> d)" for now
    by simp
  have w: "current_window sample_data = Some sample_window" by (simp add: sample_data_def)
  have e: "window_end sample_window = 18000000" "prompt_count sample_window = 997"
    by (simp_all add: sample_window_def)
  from window_accounting[OF held w, of 17999999 "sample_params\<lparr>taskCount := 2\<rparr>"]
       window_accounting[OF held w, of 18000000 "sample_params\<lparr>taskCount := 2\<rparr>"]
  show ?thesis
    by (simp add: e WINDOW_DURATION_MS_def MAX_PROMPTS_PER_WINDOW_def) blast
qed

text \<open>
  C6, as the code has it. A \<open>record\<close> call whose error is a string that is not empty (the
  tracker holding a window) adds the supplied \<open>task_count\<close> to the current window's
  \<open>prompt_count\<close> and appends a log entry, the last of the log, that carries the call's
  fields and the error text: the text itself when it has at most 500 characters, and
  otherwise its first 500 characters followed by \<open>...\<close>. When the daily totals are present
  and the disk can be written, the call succeeds and the file holds the new state.
\<close>

theorem recordRequest_accounts_failures:
  assumes "p_error params = Some e" and "e \<noteq> []"
    and "ensureLoaded now dk tr = (Inr data, tr1)" and "current_window data = Some w"
  shows "\<exists>d' w' rs.
           fst (snd (recordRequest now params dk tr)) = Some d' \<and>
           current_window d' = Some w' \<and>
           prompt_count w' = prompt_count w + taskCount params \<and>
           recent_requests d' = Some rs \<and> rs \<noteq> [] \<and>
           last rs =
             \<lparr>timestamp = now, req_type = p_type params, task_count = taskCount params,
              log_input_tokens = inputTokens params, log_output_tokens = outputTokens params,
              cost_usd = costUsd params, response_time_ms = responseTimeMs params,
              caller = p_caller params,
              log_error = Some (if length e \<le> 500 then e else take 500 e @ ''...''),
              failed_count = failedCount params\<rparr> \<and>
           (daily_totals data \<noteq> None \<and> write_error dk = None \<longrightarrow>
              fst (recordRequest now params dk tr) = Inr () \<and>
              stored (snd (snd (recordRequest now params dk tr))) = Document d')"
proof -
  obtain saved tr' dk' where r: "recordRequest now params dk tr = (saved, tr', dk')"
    by (metis prod_cases3)
  have err: "truncatedError (p_error params) =
               Some (if length e \<le> 500 then e else take 500 e @ ''...'')"
    using assms(1,2) by (simp add: truncatedError_def)
  define entry where "entry =
        \<lparr>timestamp = now, req_type = p_type params, task_count = taskCount params,
          log_input_tokens = inputTokens params, log_output_tokens = outputTokens params,
          cost_usd = costUsd params, response_time_ms = responseTimeMs params,
          caller = p_caller params, log_error = truncatedError (p_error params),
          failed_count = failedCount params\<rparr>"
  from recordRequest_fields[OF assms(3) r entry_def refl] assms(4)
  obtain d' where d': "tr' = Some d'"
    "current_window d' = Some (add_to_window params w)"
    "recent_requests d' = Some (keep_last 200
       ((case recent_requests data of None \<Rightarrow> [] | Some rs \<Rightarrow> rs) @ [entry]))"
    and saved: "\<And>totals. daily_totals data = Some totals \<Longrightarrow> (saved, dk') = saveUsageData d' dk"
    by (auto split: option.splits)
  have written: "saved = Inr () \<and> stored dk' = Document d'"
    if "daily_totals data \<noteq> None" "write_error dk = None"
  proof -
    from that(1) obtain totals where "daily_totals data = Some totals" by auto
    from saved[OF this] that(2) show ?thesis by (simp add: saveUsageData_def)
  qed
  have pushed: "keep_last 200
       ((case recent_requests data of None \<Rightarrow> [] | Some rs \<Rightarrow> rs) @ [entry]) \<noteq> []"
    "last (keep_last 200
       ((case recent_requests data of None \<Rightarrow> [] | Some rs \<Rightarrow> rs) @ [entry])) = entry"
    by (simp_all add: keep_last_pushed_last)
  have w': "prompt_count (add_to_window params w) = prompt_count w + taskCount params"
    by (simp add: add_to_window_def)
  have entry: "entry =
             \<lparr>timestamp = now, req_type = p_type params, task_count = taskCount params,
              log_input_tokens = inputTokens params, log_output_tokens = outputTokens params,
              cost_usd = costUsd params, response_time_ms = responseTimeMs params,
              caller = p_caller params,
              log_error = Some (if length e \<le> 500 then e else take 500 e @ ''...''),
              failed_count = failedCount params\<rparr>"
    by (simp add: entry_def err)
  show ?thesis
    unfolding r fst_conv snd_conv
  proof (intro exI conjI)
    show "tr' = Some d'" by (rule d')
    show "current_window d' = Some (add_to_window params w)" by (rule d')
    show "prompt_count (add_to_window params w) = prompt_count w + taskCount params"
      by (rule w')
    show "recent_requests d' = Some (keep_last 200
       ((case recent_requests data of None \<Rightarrow> [] | Some rs \<Rightarrow> rs) @ [entry]))"
      by (rule d')
    show "keep_last 200
       ((case recent_requests data of None \<Rightarrow> [] | Some rs \<Rightarrow> rs) @ [entry]) \<noteq> []"
      by (rule pushed)
    show "last (keep_last 200
       ((case recent_requests data of None \<Rightarrow> [] | Some rs \<Rightarrow> rs) @ [entry])) =
             \<lparr>timestamp = now, req_type = p_type params, task_count = taskCount params,
              log_input_tokens = inputTokens params, log_output_tokens = outputTokens params,
              cost_usd = costUsd params, response_time_ms = responseTimeMs params,
              caller = p_caller params,
              log_error = Some (if length e \<le> 500 then e else take 500 e @ ''...''),
              failed_count = failedCount params\<rparr>"
      using pushed(2) entry by (rule trans)
    show "daily_totals data \<noteq> None \<and> write_error dk = None \<longrightarrow>
            saved = Inr () \<and> stored dk' = Document d'"
      using written by blast
  qed
qed

theorem recordRequest_accounts_failures_witness:
  "\<exists>d' w' rs.
     fst (snd (recordRequest 1000 sample_params sample_disk (Some sample_data))) = Some d' \<and>
     current_window d' = Some w' \<and> prompt_count w' = 997 \<and>
     recent_requests d' = Some rs \<and> rs \<noteq> [] \<and>
     log_error (last rs) = Some ''fetch failed'' \<and> task_count (last rs) = 0 \<and>
     fst (recordRequest 1000 sample_params sample_disk (Some sample_data)) = Inr () \<and>
     stored (snd (snd (recordRequest 1000 sample_params sample_disk (Some sample_data)))) =
       Document d'"
proof -
  have held: "sample_data = (case Some sample_data of
                None \<Rightarrow> loadUsageData 1000 (stored sample_disk) | Some d \<Rightarrow> d)"
    by simp
  have w: "current_window sample_data = Some sample_window" by (simp add: sample_data_def)
  have loaded: "ensureLoaded 1000 sample_disk (Some sample_data) =
                  (Inr sample_data, Some sample_data)"
    using ensureLoaded_window[OF held w] by (simp add: sample_window_def)
  have e: "p_error sample_params = Some ''fetch failed''" "''fetch failed'' \<noteq> []"
    by (simp_all add: sample_params_def)
  have ok: "daily_totals sample_data \<noteq> None \<and> write_error sample_disk = None"
    by (simp add: sample_data_def sample_disk_def)
  from recordRequest_accounts_failures[OF e loaded w] ok
  obtain d' w' rs where
    "fst (snd (recordRequest 1000 sample_params sample_disk (Some sample_data))) = Some d'"
    "current_window d' = Some w'"
    "prompt_count w' = prompt_count sample_window + taskCount sample_params"
    "recent_requests d' = Some rs" "rs \<noteq> []"
    "log_error (last rs) = Some ''fetch failed''" "task_count (last rs) = taskCount sample_params"
    "fst (recordRequest 1000 sample_params sample_disk (Some sample_data)) = Inr ()"
    "stored (snd (snd (recordRequest 1000 sample_params sample_disk (Some sample_data)))) =
       Document d'"
    by auto
  then show ?thesis
    by (simp add: sample_params_def sample_window_def)
qed

text \<open>
  C6 as it is stated fails when the error that is set is the empty string: the code takes
  it for no error, and the entry it appends has no error text.
\<close>

theorem recordRequest_empty_error_counterexample:
  "p_error (sample_params\<lparr>p_error := Some []\<rparr>) = Some [] \<and>
   log_error (last (the (recent_requests (the (fst (snd
     (recordRequest 1000 (sample_params\<lparr>p_error := Some []\<rparr>) sample_disk
        (Some sample_data)))))))) = None"
proof -
  have held: "sample_data = (case Some sample_data of
                None \<Rightarrow> loadUsageData 1000 (stored sample_disk) | Some d \<Rightarrow> d)"
    by simp
  have w: "current_window sample_data = Some sample_window" by (simp add: sample_data_def)
  have loaded: "ensureLoaded 1000 sample_disk (Some sample_data) =
                  (Inr sample_data, Some sample_data)"
    using ensureLoaded_window[OF held w] by (simp add: sample_window_def)
  obtain saved tr' dk' where
    r: "recordRequest 1000 (sample_params\<lparr>p_error := Some []\<rparr>) sample_disk (Some sample_data) =
          (saved, tr', dk')"
    by (metis prod_cases3)
  define entry where "entry =
        \<lparr>timestamp = 1000, req_type = p_type (sample_params\<lparr>p_error := Some []\<rparr>),
          task_count = taskCount (sample_params\<lparr>p_error := Some []\<rparr>),
          log_input_tokens = inputTokens (sample_params\<lparr>p_error := Some []\<rparr>),
          log_output_tokens = outputTokens (sample_params\<lparr>p_error := Some []\<rparr>),
          cost_usd = costUsd (sample_params\<lparr>p_error := Some []\<rparr>),
          response_time_ms = responseTimeMs (sample_params\<lparr>p_error := Some []\<rparr>),
          caller = p_caller (sample_params\<lparr>p_error := Some []\<rparr>),
          log_error = truncatedError (p_error (sample_params\<lparr>p_error := Some []\<rparr>)),
          failed_count = failedCount (sample_params\<lparr>p_error := Some []\<rparr>)\<rparr>"
  from recordRequest_fields[OF loaded r entry_def refl]
  obtain d' where d': "tr' = Some d'"
    "recent_requests d' = Some (keep_last 200
       ((case recent_requests sample_data of None \<Rightarrow> [] | Some rs \<Rightarrow> rs) @ [entry]))"
    by auto
  have "log_error entry = None" by (simp add: entry_def truncatedError_def)
  then show ?thesis
    by (simp add: r d' keep_last_pushed_last)
qed

lemma within_caps_loadUsageData:
  "file_within_caps f \<Longrightarrow> within_caps (loadUsageData now f)"
  by (cases f) (simp_all add: file_within_caps_def within_caps_def loadUsageData_def Let_def)

lemma within_caps_held:
  assumes "case tr of None \<Rightarrow> True | Some d \<Rightarrow> within_caps d" and "file_within_caps (stored dk)"
  shows "within_caps (case tr of None \<Rightarrow> loadUsageData now (stored dk) | Some d \<Rightarrow> d)"
  using assms by (cases tr) (simp_all add: within_caps_loadUsageData)

lemma within_caps_ensureLoaded:
  assumes "case tr of None \<Rightarrow> True | Some d \<Rightarrow> within_caps d" and "file_within_caps (stored dk)"
    and "ensureLoaded now dk tr = (loaded, tr1)"
  shows "\<exists>d. tr1 = Some d \<and> within_caps d \<and> (\<forall>data. loaded = Inr data \<longrightarrow> data = d)"
proof (cases "current_window (case tr of None \<Rightarrow> loadUsageData now (stored dk) | Some d \<Rightarrow> d)")
  case None
  from ensureLoaded_no_window[OF refl None] assms(3) within_caps_held[OF assms(1,2)]
  show ?thesis by auto
next
  case (Some w)
  have "within_caps ((case tr of None \<Rightarrow> loadUsageData now (stored dk) | Some d \<Rightarrow> d)
          \<lparr>current_window := Some (createNewWindow now)\<rparr>)"
    using within_caps_held[OF assms(1,2), of now] by (simp add: within_caps_def)
  with ensureLoaded_window[OF refl Some] assms(3) within_caps_held[OF assms(1,2), of now]
  show ?thesis by (auto split: if_splits)
qed

lemma length_pushed_daily:
  "length totals \<le> 30 \<Longrightarrow>
   length ((keep_last 30 (totals @ [a]))[length (keep_last 30 (totals @ [a])) - 1 := b]) \<le> 30"
  by (simp add: length_keep_last)

lemma saveUsageData_stored:
  "(saved, dk') = saveUsageData d dk \<Longrightarrow> stored dk' = stored dk \<or> stored dk' = Document d"
  by (auto simp: saveUsageData_def split: option.splits)

lemma recordRequest_within_caps:
  assumes "case tr of None \<Rightarrow> True | Some d \<Rightarrow> within_caps d" and "file_within_caps (stored dk)"
    and "recordRequest now params dk tr = (saved, tr', dk')"
  shows "\<exists>d'. tr' = Some d' \<and> within_caps d' \<and> file_within_caps (stored dk')"
proof -
  obtain loaded tr1 where l: "ensureLoaded now dk tr = (loaded, tr1)" by (metis prod.exhaust)
  from within_caps_ensureLoaded[OF assms(1,2) l]
  obtain d where d: "tr1 = Some d" "within_caps d" "\<And>data. loaded = Inr data \<Longrightarrow> data = d"
    by auto
  show ?thesis
  proof (cases loaded)
    case (Inl err)
    from recordRequest_not_loaded[OF l[unfolded Inl], of params] assms(3) d assms(2)
    show ?thesis by simp
  next
    case (Inr data)
    with d have data: "data = d" by simp
    from recordRequest_fields[OF l[unfolded Inr] assms(3) refl refl]
    obtain d' w where d': "tr' = Some d'"
      "recent_requests d' = Some (keep_last 200
         ((case recent_requests data of None \<Rightarrow> [] | Some rs \<Rightarrow> rs) @
          [\<lparr>timestamp = now, req_type = p_type params, task_count = taskCount params,
          log_input_tokens = inputTokens params, log_output_tokens = outputTokens params,
          cost_usd = costUsd params, response_time_ms = responseTimeMs params,
          caller = p_caller params, log_error = truncatedError (p_error params),
          failed_count = failedCount params\<rparr>]))"
      and rest: "case daily_totals data of
        None \<Rightarrow> daily_totals d' = None \<and> pipeline_runs d' = pipeline_runs data \<and>
                 saved = Inl (TypeError ''find'') \<and> dk' = dk
      | Some totals \<Rightarrow>
          (saved, dk') = saveUsageData d' dk \<and>
          daily_totals d' =
            (case find (\<lambda>d. date d = getTodayDate now) totals of
               Some found \<Rightarrow>
                 Some (update_found (\<lambda>d. date d = getTodayDate now) (add_to_daily params) totals)
             | None \<Rightarrow>
                 Some ((keep_last 30 (totals @ [\<lparr>date = getTodayDate now, d_prompt_count = 0, d_total_input_tokens = 0,
                 d_total_output_tokens = 0, d_estimated_cost_usd = 0\<rparr>]))
                   [length (keep_last 30 (totals @ [\<lparr>date = getTodayDate now, d_prompt_count = 0, d_total_input_tokens = 0,
                 d_total_output_tokens = 0, d_estimated_cost_usd = 0\<rparr>])) - 1 :=
                    add_to_daily params \<lparr>date = getTodayDate now, d_prompt_count = 0, d_total_input_tokens = 0,
                 d_total_output_tokens = 0, d_estimated_cost_usd = 0\<rparr>])) \<and>
          pipeline_runs d' =
            (case pipeline params of
               Some ctx \<Rightarrow>
                 if truthy (p_caller params)
                 then Some (keep_last 10
                    ((case pipeline_runs data of None \<Rightarrow> [] | Some rs \<Rightarrow> rs) @
                     [\<lparr>run_id = ''run-'' @ show_int now, started = now, completed = Some now,
                       skill_chain = ctx_skill_chain ctx,
                       findings_total =
                         (case ctx_findings_total ctx of Some n \<Rightarrow> n | None \<Rightarrow> 0),
                       findings_by_difficulty = [],
                       minimax_tasks = (case minimax_eligible ctx of Some n \<Rightarrow> n | None \<Rightarrow> 0),
                       opus_tasks = (case opus_required ctx of Some n \<Rightarrow> n | None \<Rightarrow> 0),
                       minimax_cost_usd = costUsd params,
                       status = (if truthy (p_error params) then Failed else Completed)\<rparr>]))
                 else pipeline_runs data
             | None \<Rightarrow> pipeline_runs data)"
      by blast
    have c1: "length (case recent_requests d' of None \<Rightarrow> [] | Some rs \<Rightarrow> rs) \<le> 200"
      by (simp add: d'(2) length_keep_last)
    have caps: "length (case daily_totals data of None \<Rightarrow> [] | Some ds \<Rightarrow> ds) \<le> 30"
      "length (case pipeline_runs data of None \<Rightarrow> [] | Some rs \<Rightarrow> rs) \<le> 10"
      using d(2) data by (simp_all add: within_caps_def)
    have c2: "length (case daily_totals d' of None \<Rightarrow> [] | Some ds \<Rightarrow> ds) \<le> 30"
      using rest caps(1)
      by (auto split: option.splits simp: length_update_found length_keep_last)
    have c3: "length (case pipeline_runs d' of None \<Rightarrow> [] | Some rs \<Rightarrow> rs) \<le> 10"
      using rest caps(2)
      by (auto split: option.splits if_splits simp: length_keep_last)
    have wc: "within_caps d'" using c1 c2 c3 by (simp add: within_caps_def)
    have "stored dk' = stored dk \<or> stored dk' = Document d'"
      using rest saveUsageData_stored[of saved dk' d' dk] by (auto split: option.splits)
    with assms(2) wc have "file_within_caps (stored dk')"
      by (auto simp: file_within_caps_def)
    with wc d'(1) show ?thesis by simp
  qed
qed

lemma getRemainingPrompts_within_caps:
  assumes "case tr of None \<Rightarrow> True | Some d \<Rightarrow> within_caps d" and "file_within_caps (stored dk)"
    and "getRemainingPrompts now dk tr = (remaining, tr')"
  shows "\<exists>d'. tr' = Some d' \<and> within_caps d'"
proof -
  obtain loaded tr1 where l: "ensureLoaded now dk tr = (loaded, tr1)" by (metis prod.exhaust)
  from within_caps_ensureLoaded[OF assms(1,2) l]
  obtain d where d: "tr1 = Some d" "within_caps d" by auto
  from assms(3) have "tr' = tr1"
    by (auto simp: getRemainingPrompts_def l split: sum.splits option.splits)
  with d show ?thesis by simp
qed

lemma reachable_within_caps:
  "reachable s \<Longrightarrow>
   (case fst s of None \<Rightarrow> True | Some d \<Rightarrow> within_caps d) \<and> file_within_caps (stored (snd s))"
proof (induction rule: reachable.induct)
  case (start dk)
  then show ?case by simp
next
  case (recorded tr dk now params saved tr' dk')
  from recordRequest_within_caps[OF _ _ recorded(2)] recorded(3) show ?case by auto
next
  case (checked tr dk now remaining tr')
  from getRemainingPrompts_within_caps[OF _ _ checked(2)] checked(3) show ?case by auto
next
  case (restarted tr dk)
  then show ?case by simp
next
  case (write_changed tr dk e)
  then show ?case by simp
next
  case (file_replaced tr dk f)
  then show ?case by simp
qed

text \<open>
  C5. In every state the ledger reaches, a \<open>record\<close> call leaves in memory at most 200
  recent requests, at most 30 daily totals and at most 10 pipeline runs, and the file on
  disk is within the same caps. When the tracker holds a window, so that the call gets
  to append: the new log is the old one with the new entry at its end and, beyond 200
  entries, without its first; when the day has no entry yet, the same for the daily totals
  and 30; when a pipeline run is recorded, the same for the runs and 10. What is evicted
  is a prefix of the old list, its oldest entries.
\<close>

theorem recordRequest_keeps_caps:
  assumes "reachable (tr, dk)"
    and "held = (case tr of None \<Rightarrow> loadUsageData now (stored dk) | Some d \<Rightarrow> d)"
    and "requests = (case recent_requests held of None \<Rightarrow> [] | Some rs \<Rightarrow> rs)"
    and "runs = (case pipeline_runs held of None \<Rightarrow> [] | Some rs \<Rightarrow> rs)"
    and "entry =
        \<lparr>timestamp = now, req_type = p_type params, task_count = taskCount params,
          log_input_tokens = inputTokens params, log_output_tokens = outputTokens params,
          cost_usd = costUsd params, response_time_ms = responseTimeMs params,
          caller = p_caller params, log_error = truncatedError (p_error params),
          failed_count = failedCount params\<rparr>"
    and "dailyEntry =
        add_to_daily params
          \<lparr>date = getTodayDate now, d_prompt_count = 0, d_total_input_tokens = 0,
            d_total_output_tokens = 0, d_estimated_cost_usd = 0\<rparr>"
    and "run = (\<lambda>ctx.
        \<lparr>run_id = ''run-'' @ show_int now, started = now, completed = Some now,
          skill_chain = ctx_skill_chain ctx,
          findings_total = (case ctx_findings_total ctx of Some n \<Rightarrow> n | None \<Rightarrow> 0),
          findings_by_difficulty = [],
          minimax_tasks = (case minimax_eligible ctx of Some n \<Rightarrow> n | None \<Rightarrow> 0),
          opus_tasks = (case opus_required ctx of Some n \<Rightarrow> n | None \<Rightarrow> 0),
          minimax_cost_usd = costUsd params,
          status = (if truthy (p_error params) then Failed else Completed)\<rparr>)"
  shows "\<exists>d'. fst (snd (recordRequest now params dk tr)) = Some d' \<and>
           length (case recent_requests d' of None \<Rightarrow> [] | Some rs \<Rightarrow> rs) \<le> 200 \<and>
           length (case daily_totals d' of None \<Rightarrow> [] | Some ds \<Rightarrow> ds) \<le> 30 \<and>
           length (case pipeline_runs d' of None \<Rightarrow> [] | Some rs \<Rightarrow> rs) \<le> 10 \<and>
           file_within_caps (stored (snd (snd (recordRequest now params dk tr)))) \<and>
           (current_window held \<noteq> None \<longrightarrow>
              recent_requests d' = Some (drop (length requests + 1 - 200) (requests @ [entry])) \<and>
              (\<forall>totals. daily_totals held = Some totals \<longrightarrow>
                 (find (\<lambda>d. date d = getTodayDate now) totals = None \<longrightarrow>
                    daily_totals d' =
                      Some (drop (length totals + 1 - 30) (totals @ [dailyEntry]))) \<and>
                 (\<forall>ctx. pipeline params = Some ctx \<and> truthy (p_caller params) \<longrightarrow>
                    pipeline_runs d' =
                      Some (drop (length runs + 1 - 10) (runs @ [run ctx])))))"
proof -
  obtain saved tr' dk' where r: "recordRequest now params dk tr = (saved, tr', dk')"
    by (metis prod_cases3)
  from reachable_within_caps[OF assms(1)]
  have inv: "case tr of None \<Rightarrow> True | Some d \<Rightarrow> within_caps d" "file_within_caps (stored dk)"
    by simp_all
  from recordRequest_within_caps[OF inv r]
  obtain d' where d': "tr' = Some d'" "within_caps d'" "file_within_caps (stored dk')" by auto
  have appended:
      "recent_requests d' = Some (drop (length requests + 1 - 200) (requests @ [entry])) \<and>
       (\<forall>totals. daily_totals held = Some totals \<longrightarrow>
          (find (\<lambda>d. date d = getTodayDate now) totals = None \<longrightarrow>
             daily_totals d' = Some (drop (length totals + 1 - 30) (totals @ [dailyEntry]))) \<and>
          (\<forall>ctx. pipeline params = Some ctx \<and> truthy (p_caller params) \<longrightarrow>
             pipeline_runs d' = Some (drop (length runs + 1 - 10) (runs @ [run ctx]))))"
    if "current_window held \<noteq> None"
  proof -
    from that obtain w where w: "current_window held = Some w" by auto
    define data where "data =
      (if window_end w \<le> now then held\<lparr>current_window := Some (createNewWindow now)\<rparr> else held)"
    from ensureLoaded_window[OF assms(2) w]
    have loaded: "ensureLoaded now dk tr = (Inr data, Some data)" by (simp add: data_def)
    have same: "recent_requests data = recent_requests held"
      "daily_totals data = daily_totals held" "pipeline_runs data = pipeline_runs held"
      by (simp_all add: data_def)
    note fields = recordRequest_fields[OF loaded r assms(5) refl, unfolded same]
    from fields d'(1) have rr: "recent_requests d' = Some (keep_last 200 (requests @ [entry]))"
      by (auto simp: assms(3))
    have p1: "recent_requests d' = Some (drop (length requests + 1 - 200) (requests @ [entry]))"
      unfolding rr by (simp add: keep_last_pushed)
    have p2: "daily_totals d' = Some (drop (length totals + 1 - 30) (totals @ [dailyEntry]))"
      if t: "daily_totals held = Some totals"
        and f: "find (\<lambda>d. date d = getTodayDate now) totals = None" for totals
    proof -
      from fields d'(1) t f
      have "daily_totals d' = Some ((keep_last 30 (totals @
              [\<lparr>date = getTodayDate now, d_prompt_count = 0, d_total_input_tokens = 0,
                d_total_output_tokens = 0, d_estimated_cost_usd = 0\<rparr>]))
                   [length (keep_last 30 (totals @
              [\<lparr>date = getTodayDate now, d_prompt_count = 0, d_total_input_tokens = 0,
                d_total_output_tokens = 0, d_estimated_cost_usd = 0\<rparr>])) - 1 := dailyEntry])"
        by (auto simp: assms(6))
      also have "\<dots> = Some (drop (length totals + 1 - 30) (totals @ [dailyEntry]))"
      proof -
        have k: "keep_last 30 (totals @ [z]) = drop (length totals + 1 - 30) (totals @ [z])"
          for z :: DailyTotal
          by (simp add: keep_last_pushed)
        have "length totals + 1 - 30 \<le> length totals" by simp
        from drop_pushed_update[OF this] show ?thesis unfolding k by simp
      qed
      finally show ?thesis .
    qed
    have p3: "pipeline_runs d' = Some (drop (length runs + 1 - 10) (runs @ [run ctx]))"
      if t: "daily_totals held = Some totals"
        and c: "pipeline params = Some ctx \<and> truthy (p_caller params)" for totals ctx
    proof -
      from fields d'(1) t c
      have "pipeline_runs d' = Some (keep_last 10 (runs @ [run ctx]))"
        by (auto simp: assms(4,7))
      then show ?thesis by (simp add: keep_last_pushed)
    qed
    from p1 p2 p3 show ?thesis by blast
  qed
  from d'(2) have caps:
    "length (case recent_requests d' of None \<Rightarrow> [] | Some rs \<Rightarrow> rs) \<le> 200"
    "length (case daily_totals d' of None \<Rightarrow> [] | Some ds \<Rightarrow> ds) \<le> 30"
    "length (case pipeline_runs d' of None \<Rightarrow> [] | Some rs \<Rightarrow> rs) \<le> 10"
    by (simp_all add: within_caps_def)
  show ?thesis
    unfolding r fst_conv snd_conv
    using d'(1,3) caps appended by blast
qed

theorem recordRequest_keeps_caps_witness:
  "\<exists>d' rs ds ps.
     fst (snd (recordRequest 2592000005 pipeline_params
                 \<lparr>stored = Document full_document, write_error = None\<rparr> None)) = Some d' \<and>
     recent_requests d' = Some rs \<and> length rs = 200 \<and>
     timestamp (hd rs) = 1 \<and> timestamp (last rs) = 2592000005 \<and>
     daily_totals d' = Some ds \<and> length ds = 30 \<and> date (hd ds) = 1 \<and> date (last ds) = 30 \<and>
     pipeline_runs d' = Some ps \<and> length ps = 10 \<and>
     started (hd ps) = 1 \<and> started (last ps) = 2592000005"
proof -
  define dk where "dk = \<lparr>stored = Document full_document, write_error = None\<rparr>"
  have lens: "length sample_log = 200" "length sample_totals = 30" "length sample_runs = 10"
    by (simp_all add: sample_log_def sample_totals_def sample_runs_def)
  have "file_within_caps (stored dk)"
    by (simp add: dk_def file_within_caps_def within_caps_def full_document_def lens)
  then have reach: "reachable (None, dk)" by (rule reachable.start)
  define held where "held = loadUsageData 2592000005 (stored dk)"
  have held: "current_window held \<noteq> None" "daily_totals held = Some sample_totals"
    "recent_requests held = Some sample_log" "pipeline_runs held = Some sample_runs"
    by (simp_all add: held_def dk_def loadUsageData_def full_document_def Let_def)
  have today: "getTodayDate 2592000005 = 30" by (simp add: getTodayDate_def)
  have absent: "find (\<lambda>d. date d = getTodayDate 2592000005) sample_totals = None"
    by (auto simp: today find_None_iff sample_totals_def)
  have ctx: "pipeline pipeline_params = Some sample_context \<and> truthy (p_caller pipeline_params)"
    by (simp add: pipeline_params_def truthy_def)
  from recordRequest_keeps_caps[of None dk held 2592000005 _ _ _ pipeline_params,
      OF reach _ refl refl refl refl refl] held absent ctx
  obtain d' e t p where d':
    "fst (snd (recordRequest 2592000005 pipeline_params dk None)) = Some d'"
    "recent_requests d' = Some (drop (length sample_log + 1 - 200) (sample_log @ [e]))"
    "timestamp e = 2592000005"
    "daily_totals d' = Some (drop (length sample_totals + 1 - 30) (sample_totals @ [t]))"
    "date t = getTodayDate 2592000005"
    "pipeline_runs d' = Some (drop (length sample_runs + 1 - 10) (sample_runs @ [p]))"
    "started p = 2592000005"
    by (auto simp: held_def add_to_daily_def)
  have h1: "timestamp (hd (drop 1 (sample_log @ [e]))) = 1"
    by (simp add: hd_drop_conv_nth lens nth_append) (simp add: sample_log_def)
  have h2: "date (hd (drop 1 (sample_totals @ [t]))) = 1"
    by (simp add: hd_drop_conv_nth lens nth_append) (simp add: sample_totals_def)
  have h3: "started (hd (drop 1 (sample_runs @ [p]))) = 1"
    by (simp add: hd_drop_conv_nth lens nth_append) (simp add: sample_runs_def)
  have l: "last (drop 1 (sample_log @ [e])) = e" "last (drop 1 (sample_totals @ [t])) = t"
    "last (drop 1 (sample_runs @ [p])) = p"
    by (simp_all add: lens)
  show ?thesis
    unfolding dk_def[symmetric]
    using d' h1 h2 h3 l by (simp add: lens today)
qed

section \<open>The batch tool\<close>

lemma names_number_between:
  "names_number (before @ show_int n @ after) n"
  unfolding names_number_def sublist_def by blast

lemma sample_remaining:
  "getRemainingPrompts 1000 sample_disk (Some sample_data) = (Inr 3, Some sample_data)"
proof -
  have held: "sample_data = (case Some sample_data of
                None \<Rightarrow> loadUsageData 1000 (stored sample_disk) | Some d \<Rightarrow> d)"
    by simp
  have w: "current_window sample_data = Some sample_window" by (simp add: sample_data_def)
  have loaded: "ensureLoaded 1000 sample_disk (Some sample_data) =
                  (Inr sample_data, Some sample_data)"
    using ensureLoaded_window[OF held w] by (simp add: sample_window_def)
  from getRemainingPrompts_window[OF loaded w] show ?thesis
    by (simp add: sample_window_def MAX_PROMPTS_PER_WINDOW_def)
qed

lemma show_small:
  "show_int 2 = ''2''" "show_int 3 = ''3''" "show_int 5 = ''5''"
  by (simp_all add: show_int_def show_nat.simps)

text \<open>
  C4, as the code has it. When the processor exists and \<open>get_remaining\<close> answers fewer
  prompts than the batch has tasks, the handler returns an error reply at once: no call of
  the Gateway is made, nothing is recorded and the disk is left as it was (the tracker
  keeps only what the quota check loaded or rotated). The text of the reply names the
  number of prompts that remain and the number of tasks requested.
\<close>

theorem llm_batch_refuses_whole_batch:
  assumes "processor sv = Some bp"
    and "getRemainingPrompts startTime (storage sv) (tracker sv) = (Inr remaining, tr)"
    and "remaining < int (length tasks)"
    and "message = ''Rate limit: Only '' @ show_int remaining @ '' prompts remaining but '' @
                   show_int (int (length tasks)) @
                   '' requested. Reduce batch size or wait for window reset.''"
  shows "llm_batch sv order startTime endTime tasks concurrency batch_caller batch_pipeline =
           Some (Inr (ErrorReply message), sv\<lparr>tracker := tr\<rparr>, []) \<and>
         names_number message remaining \<and> names_number message (int (length tasks))"
proof (intro conjI)
  show "llm_batch sv order startTime endTime tasks concurrency batch_caller batch_pipeline =
           Some (Inr (ErrorReply message), sv\<lparr>tracker := tr\<rparr>, [])"
    unfolding llm_batch_def assms(4) using assms(1,2,3) by simp
  show "names_number message remaining"
    unfolding assms(4) by (rule names_number_between[of "''Rate limit: Only ''"])
  have "names_number ((''Rate limit: Only '' @ show_int remaining @ '' prompts remaining but '') @
            show_int (int (length tasks)) @
            '' requested. Reduce batch size or wait for window reset.'') (int (length tasks))"
    by (rule names_number_between)
  then show "names_number message (int (length tasks))"
    unfolding assms(4) by simp
qed

theorem llm_batch_refuses_whole_batch_witness:
  "llm_batch sample_server id 1000 2000 five_tasks None None None =
     Some (Inr (ErrorReply ''Rate limit: Only 3 prompts remaining but 5 requested. Reduce batch size or wait for window reset.''),
           sample_server, []) \<and>
   names_number ''Rate limit: Only 3 prompts remaining but 5 requested. Reduce batch size or wait for window reset.'' 3 \<and>
   names_number ''Rate limit: Only 3 prompts remaining but 5 requested. Reduce batch size or wait for window reset.'' 5"
proof -
  have p: "processor sample_server = Some sample_processor" by (simp add: sample_server_def)
  have r: "getRemainingPrompts 1000 (storage sample_server) (tracker sample_server) =
             (Inr 3, Some sample_data)"
    using sample_remaining by (simp add: sample_server_def)
  have n: "length five_tasks = 5" by (simp add: five_tasks_def)
  have same: "sample_server\<lparr>tracker := Some sample_data\<rparr> = sample_server"
    by (simp add: sample_server_def)
  from llm_batch_refuses_whole_batch[OF p r _ refl, of five_tasks id 2000 None None None]
  show ?thesis by (simp add: n show_small same)
qed

text \<open>
  C4 as it is stated fails on the specification's own scenario, three prompts remaining
  and five tasks requested: the batch is refused whole, but the message names the two
  numbers, and nowhere the shortfall of 2.
\<close>

theorem llm_batch_shortfall_counterexample:
  "getRemainingPrompts 1000 (storage sample_server) (tracker sample_server) =
     (Inr 3, Some sample_data) \<and>
   int (length five_tasks) = 5 \<and>
   llm_batch sample_server id 1000 2000 five_tasks None None None =
     Some (Inr (ErrorReply ''Rate limit: Only 3 prompts remaining but 5 requested. Reduce batch size or wait for window reset.''),
           sample_server, []) \<and>
   \<not> names_number ''Rate limit: Only 3 prompts remaining but 5 requested. Reduce batch size or wait for window reset.''
       (int (length five_tasks) - 3)"
proof -
  have r: "getRemainingPrompts 1000 (storage sample_server) (tracker sample_server) =
             (Inr 3, Some sample_data)"
    using sample_remaining by (simp add: sample_server_def)
  have n: "int (length five_tasks) = 5" by (simp add: five_tasks_def)
  have p: "processor sample_server = Some sample_processor" by (simp add: sample_server_def)
  have same: "sample_server\<lparr>tracker := Some sample_data\<rparr> = sample_server"
    by (simp add: sample_server_def)
  have run: "llm_batch sample_server id 1000 2000 five_tasks None None None =
     Some (Inr (ErrorReply ''Rate limit: Only 3 prompts remaining but 5 requested. Reduce batch size or wait for window reset.''),
           sample_server, [])"
    unfolding llm_batch_def r p using n by (simp add: show_small same)
  have absent: "\<not> names_number ''Rate limit: Only 3 prompts remaining but 5 requested. Reduce batch size or wait for window reset.'' (int (length five_tasks) - 3)"
    unfolding n names_number_def by (simp add: show_small sublist_code)
  from r n run absent show ?thesis by blast
qed

section \<open>Rounding to binary64 and the cost estimate\<close>

lemma bitlen_powi_bounds:
  assumes "0 < p"
  shows "(2::rat) powi (bitlen p - 1) \<le> of_int p \<and> of_int p < (2::rat) powi (bitlen p)"
proof -
  from bitlen_bounds[OF assms]
  have b: "2 ^ nat (bitlen p - 1) \<le> p" "p < 2 ^ nat (bitlen p)" by simp_all
  have pos: "0 < bitlen p"
  proof (rule ccontr)
    assume "\<not> 0 < bitlen p"
    then have "nat (bitlen p) = 0" by simp
    with b(2) assms show False by simp
  qed
  have "(of_int (2 ^ nat (bitlen p - 1)) :: rat) \<le> of_int p" using b(1) by (rule of_int_le_iff[THEN iffD2])
  moreover have "(of_int p :: rat) < of_int (2 ^ nat (bitlen p))" using b(2) by (rule of_int_less_iff[THEN iffD2])
  ultimately show ?thesis using pos by (simp add: power_int_def)
qed

lemma binade_bounds:
  assumes "0 < x"
  shows "2 powi (binade x) \<le> x \<and> x < 2 powi (binade x + 1)"
proof -
  obtain p q where pq: "quotient_of x = (p, q)" by (cases "quotient_of x")
  have q: "0 < q" using quotient_of_denom_pos[OF pq] .
  have x: "x = of_int p / of_int q" using quotient_of_div[OF pq] .
  have p: "0 < p" using assms q unfolding x by (simp add: zero_less_divide_iff)
  define d where "d = bitlen p - bitlen q"
  note bp = bitlen_powi_bounds[OF p] and bq = bitlen_powi_bounds[OF q]
  have qpos: "(0::rat) < of_int q" using q by simp
  have lower: "2 powi (d - 1) \<le> x"
  proof -
    have "(2::rat) powi (d - 1) = 2 powi (bitlen p - 1) / 2 powi (bitlen q)"
      unfolding d_def by (simp add: power_int_diff[symmetric] algebra_simps)
    also have "\<dots> \<le> of_int p / 2 powi (bitlen q)"
      using bp by (simp add: divide_right_mono)
    also have "\<dots> \<le> of_int p / of_int q"
      using bq qpos p by (intro divide_left_mono) (simp_all add: less_imp_le)
    finally show ?thesis unfolding x .
  qed
  have upper: "x < 2 powi (d + 1)"
  proof -
    have "x = of_int p / of_int q" by (rule x)
    also have "\<dots> < 2 powi (bitlen p) / of_int q"
      using bp qpos by (simp add: divide_strict_right_mono)
    also have "\<dots> \<le> 2 powi (bitlen p) / 2 powi (bitlen q - 1)"
      using bq qpos by (intro divide_left_mono) (simp_all add: zero_less_mult_iff)
    also have "\<dots> = 2 powi (d + 1)"
      unfolding d_def by (simp add: power_int_diff[symmetric] algebra_simps)
    finally show ?thesis .
  qed
  have b: "binade x = (if 2 powi d \<le> x then d else d - 1)"
    unfolding binade_def pq d_def by (simp add: Let_def)
  show ?thesis
  proof (cases "2 powi d \<le> x")
    case True
    with b upper show ?thesis by simp
  next
    case False
    with b lower show ?thesis by simp
  qed
qed

lemma rne_cases: "rne x = \<lfloor>x\<rfloor> \<or> rne x = \<lfloor>x\<rfloor> + 1"
  by (simp add: rne_def Let_def)

lemma rne_mono:
  assumes "x \<le> y"
  shows "rne x \<le> rne y"
proof (cases "\<lfloor>x\<rfloor> = \<lfloor>y\<rfloor>")
  case True
  have "x - of_int \<lfloor>x\<rfloor> \<le> y - of_int \<lfloor>x\<rfloor>" using assms by simp
  then show ?thesis unfolding rne_def Let_def True[symmetric] by auto
next
  case False
  with assms have "\<lfloor>x\<rfloor> < \<lfloor>y\<rfloor>" by (simp add: floor_mono order.strict_iff_order)
  moreover have "rne x \<le> \<lfloor>x\<rfloor> + 1" using rne_cases[of x] by auto
  moreover have "\<lfloor>y\<rfloor> \<le> rne y" using rne_cases[of y] by auto
  ultimately show ?thesis by linarith
qed

lemma rne_of_int: "rne (of_int n) = n"
  by (simp add: rne_def Let_def)

lemma rne_error: "\<bar>of_int (rne x) - x\<bar> \<le> 1 / 2"
proof -
  have "of_int \<lfloor>x\<rfloor> \<le> x" "x < of_int \<lfloor>x\<rfloor> + 1" by linarith+
  then show ?thesis unfolding rne_def Let_def by (auto simp: abs_le_iff)
qed

lemma ulp_pos: "0 < ulp x"
  by (simp add: ulp_def)

lemma fl_pos_eq: "0 < x \<Longrightarrow> fl x = of_int (rne (x / ulp x)) * ulp x"
  by (simp add: fl_def)

lemma fl_upper:
  assumes "0 < x"
  shows "fl x \<le> 2 powi (max (binade x) (- 1022) + 1)"
proof -
  define e where "e = max (binade x) (- 1022)"
  have u: "ulp x = 2 powi (e - 52)" using assms by (simp add: ulp_def e_def)
  have "x < 2 powi (binade x + 1)" using binade_bounds[OF assms] by simp
  also have "\<dots> \<le> 2 powi (e + 1)" by (rule power_int_increasing) (simp_all add: e_def)
  finally have "x / ulp x < 2 powi (e + 1) / 2 powi (e - 52)"
    unfolding u by (simp add: divide_strict_right_mono)
  also have "\<dots> = 2 powi 53" by (simp add: power_int_diff[symmetric])
  also have "\<dots> = of_int (2 ^ 53)" by (simp add: power_int_def)
  finally have "rne (x / ulp x) \<le> rne (of_int (2 ^ 53))" by (intro rne_mono) simp
  then have "rne (x / ulp x) \<le> 2 ^ 53" unfolding rne_of_int .
  then have "(of_int (rne (x / ulp x)) :: rat) \<le> of_int (2 ^ 53)"
    by (rule of_int_le_iff[THEN iffD2])
  then have "fl x \<le> of_int (2 ^ 53) * ulp x"
    unfolding fl_pos_eq[OF assms] using ulp_pos[of x] by (simp add: mult_right_mono)
  also have "of_int (2 ^ 53) * ulp x = 2 powi 53 * 2 powi (e - 52)"
    unfolding u by (simp add: power_int_def)
  also have "\<dots> = 2 powi (53 + (e - 52))" by (rule power_int_add[symmetric]) simp
  also have "53 + (e - 52) = e + 1" by simp
  finally show ?thesis unfolding e_def .
qed

lemma fl_lower:
  assumes "0 < x" and "- 1022 \<le> binade x"
  shows "2 powi (binade x) \<le> fl x"
proof -
  define e where "e = binade x"
  have u: "ulp x = 2 powi (e - 52)" using assms by (simp add: ulp_def e_def max_def)
  have "2 powi e \<le> x" using binade_bounds[OF assms(1)] by (simp add: e_def)
  then have "2 powi e / 2 powi (e - 52) \<le> x / ulp x"
    unfolding u by (simp add: divide_right_mono)
  moreover have "(2::rat) powi e / 2 powi (e - 52) = 2 powi 52"
    by (simp add: power_int_diff[symmetric])
  moreover have "(2::rat) powi 52 = of_int (2 ^ 52)" by (simp add: power_int_def)
  ultimately have "rne (of_int (2 ^ 52)) \<le> rne (x / ulp x)" by (intro rne_mono) simp
  then have "2 ^ 52 \<le> rne (x / ulp x)" unfolding rne_of_int .
  then have "(of_int (2 ^ 52) :: rat) \<le> of_int (rne (x / ulp x))"
    by (rule of_int_le_iff[THEN iffD2])
  then have "of_int (2 ^ 52) * ulp x \<le> fl x"
    unfolding fl_pos_eq[OF assms(1)] using ulp_pos[of x] by (simp add: mult_right_mono)
  moreover have "of_int (2 ^ 52) * ulp x = 2 powi 52 * 2 powi (e - 52)"
    unfolding u by (simp add: power_int_def)
  moreover have "(2::rat) powi 52 * 2 powi (e - 52) = 2 powi (52 + (e - 52))"
    by (rule power_int_add[symmetric]) simp
  moreover have "52 + (e - 52) = e" by simp
  ultimately show ?thesis unfolding e_def by simp
qed

lemma binade_mono:
  assumes "0 < x" and "x \<le> y"
  shows "binade x \<le> binade y"
proof -
  have y: "0 < y" using assms by simp
  have "(2::rat) powi (binade x) \<le> x" using binade_bounds[OF assms(1)] by simp
  also have "x \<le> y" by fact
  also have "y < 2 powi (binade y + 1)" using binade_bounds[OF y] by simp
  finally have lt: "(2::rat) powi (binade x) < 2 powi (binade y + 1)" .
  have "binade x < binade y + 1"
  proof (rule ccontr)
    assume "\<not> binade x < binade y + 1"
    then have "binade y + 1 \<le> binade x" by simp
    then have "(2::rat) powi (binade y + 1) \<le> 2 powi (binade x)"
      by (rule power_int_increasing) simp
    with lt show False by simp
  qed
  then show ?thesis by simp
qed

lemma fl_mono_pos:
  assumes "0 < x" and "x \<le> y"
  shows "fl x \<le> fl y"
proof -
  have y: "0 < y" using assms by simp
  note b = binade_mono[OF assms]
  show ?thesis
  proof (cases "max (binade x) (- 1022) = max (binade y) (- 1022)")
    case True
    then have u: "ulp y = ulp x" using assms y by (simp add: ulp_def)
    have "x / ulp x \<le> y / ulp x" using assms(2) ulp_pos[of x] by (simp add: divide_right_mono)
    then have "rne (x / ulp x) \<le> rne (y / ulp x)" by (rule rne_mono)
    then have "(of_int (rne (x / ulp x)) :: rat) \<le> of_int (rne (y / ulp x))"
      by (rule of_int_le_iff[THEN iffD2])
    then show ?thesis
      unfolding fl_pos_eq[OF assms(1)] fl_pos_eq[OF y] u
      using ulp_pos[of x] by (simp add: mult_right_mono)
  next
    case False
    with b have e: "- 1022 \<le> binade y" "max (binade x) (- 1022) + 1 \<le> binade y"
      by (simp_all add: max_def split: if_splits)
    have "fl x \<le> 2 powi (max (binade x) (- 1022) + 1)" by (rule fl_upper[OF assms(1)])
    also have "\<dots> \<le> 2 powi (binade y)" using e(2) by (intro power_int_increasing) simp_all
    also have "\<dots> \<le> fl y" by (rule fl_lower[OF y e(1)])
    finally show ?thesis .
  qed
qed

lemma fl_zero: "fl 0 = 0"
  by (simp add: fl_def)

lemma fl_minus: "fl (- x) = - fl x"
  by (simp add: fl_def ulp_def)

lemma rne_nonneg: "0 \<le> x \<Longrightarrow> 0 \<le> rne x"
  using rne_mono[of 0 x] rne_of_int[of 0] by simp

lemma fl_nonneg:
  assumes "0 \<le> x"
  shows "0 \<le> fl x"
proof (cases "x = 0")
  case True
  then show ?thesis by (simp add: fl_zero)
next
  case False
  with assms have x: "0 < x" by simp
  have "0 \<le> x / ulp x" using x ulp_pos[of x] by simp
  from rne_nonneg[OF this] show ?thesis
    unfolding fl_pos_eq[OF x] using ulp_pos[of x] by simp
qed

lemma fl_mono:
  assumes "x \<le> y"
  shows "fl x \<le> fl y"
proof -
  consider "0 < x" | "x \<le> 0" "0 \<le> y" | "y < 0" by linarith
  then show ?thesis
  proof cases
    case 1
    then show ?thesis using assms by (rule fl_mono_pos)
  next
    case 2
    from fl_nonneg[of "- x"] 2(1) have "fl x \<le> 0" by (simp add: fl_minus)
    also have "0 \<le> fl y" using 2(2) by (rule fl_nonneg)
    finally show ?thesis .
  next
    case 3
    then have "0 < - y" "- y \<le> - x" using assms by simp_all
    from fl_mono_pos[OF this] show ?thesis by (simp add: fl_minus)
  qed
qed

lemma fl_error:
  assumes "1 / 2 ^ 60 \<le> x"
  shows "\<bar>fl x - x\<bar> \<le> x / 2 ^ 53"
proof -
  have x: "0 < x" by (rule less_le_trans[OF _ assms]) simp
  define b where "b = binade x"
  have normal: "- 1022 \<le> b"
  proof (rule ccontr)
    assume "\<not> - 1022 \<le> b"
    then have "b + 1 \<le> - 60" by simp
    then have "(2::rat) powi (b + 1) \<le> 2 powi (- 60)" by (rule power_int_increasing) simp
    moreover have "x < 2 powi (b + 1)" using binade_bounds[OF x] by (simp add: b_def)
    moreover have "(2::rat) powi (- 60) = 1 / 2 ^ 60" by (simp add: power_int_def field_simps)
    ultimately show False using assms by simp
  qed
  define u where "u = (2::rat) powi (b - 52)"
  have u: "ulp x = u" using x normal by (simp add: ulp_def b_def u_def max_def)
  have upos: "0 < u" by (simp add: u_def)
  have "fl x - x = (of_int (rne (x / u)) - x / u) * u"
    unfolding fl_pos_eq[OF x] u using upos by (simp add: algebra_simps)
  then have "\<bar>fl x - x\<bar> = \<bar>of_int (rne (x / u)) - x / u\<bar> * u"
    using upos by (simp add: abs_mult)
  also have "\<dots> \<le> 1 / 2 * u"
    using rne_error[of "x / u"] upos by (intro mult_right_mono) simp_all
  also have "1 / 2 * u = 2 powi b / 2 ^ 53"
  proof -
    have "(2::rat) powi b = 2 powi (53 + (b - 53))" by simp
    also have "\<dots> = 2 powi 53 * 2 powi (b - 53)" by (rule power_int_add) simp
    finally have 1: "(2::rat) powi b / 2 ^ 53 = 2 powi (b - 53)" by (simp add: power_int_def)
    have "u = 2 powi (1 + (b - 53))" by (simp add: u_def)
    also have "\<dots> = 2 powi 1 * 2 powi (b - 53)" by (rule power_int_add) simp
    finally have "1 / 2 * u = 2 powi (b - 53)" by simp
    with 1 show ?thesis by simp
  qed
  also have "\<dots> \<le> x / 2 ^ 53"
    using binade_bounds[OF x] by (simp add: b_def divide_right_mono)
  finally show ?thesis .
qed

lemma fl_between:
  assumes "x = 0 \<or> 1 / 2 ^ 60 \<le> x"
  shows "x * (1 - 1 / 2 ^ 53) \<le> fl x \<and> fl x \<le> x * (1 + 1 / 2 ^ 53)"
proof (cases "x = 0")
  case True
  then show ?thesis by (simp add: fl_zero)
next
  case False
  with assms have "1 / 2 ^ 60 \<le> x" by simp
  note e = fl_error[OF this]
  define d where "d = x / 2 ^ 53"
  have "fl x - x \<le> d" "- (fl x - x) \<le> d"
    using e unfolding d_def[symmetric] abs_le_iff by simp_all
  moreover have "x * (1 - 1 / 2 ^ 53) = x - d" "x * (1 + 1 / 2 ^ 53) = x + d"
    unfolding d_def by (simp_all add: algebra_simps)
  ultimately show ?thesis by simp
qed

lemma fl_step:
  assumes "lo \<le> y" and "y \<le> hi" and "y = 0 \<or> 1 / 2 ^ 60 \<le> y" and "0 \<le> lo"
  shows "lo * (1 - 1 / 2 ^ 53) \<le> fl y \<and> fl y \<le> hi * (1 + 1 / 2 ^ 53)"
proof -
  from fl_between[OF assms(3)]
  have b: "y * (1 - 1 / 2 ^ 53) \<le> fl y" "fl y \<le> y * (1 + 1 / 2 ^ 53)" by simp_all
  have "lo * (1 - 1 / 2 ^ 53) \<le> y * (1 - 1 / 2 ^ 53)"
    using assms(1) by (intro mult_right_mono) simp_all
  moreover have "y * (1 + 1 / 2 ^ 53) \<le> hi * (1 + 1 / 2 ^ 53)"
    using assms(2) by (intro mult_right_mono) simp_all
  ultimately show ?thesis using b by linarith
qed

lemma cost_term:
  fixes n :: int and q :: rat
  assumes "0 \<le> n" and "1 / 16 \<le> q"
    and "t = fmul (fdiv (fl (of_int n)) 1000000) (fl q)"
    and "e = of_int n * q / 1000000"
    and "r = 1 - 1 / 2 ^ 53" and "s = 1 + 1 / 2 ^ 53"
  shows "e * r ^ 4 \<le> t \<and> t \<le> e * s ^ 4 \<and> (t = 0 \<or> 1 / 2 ^ 40 \<le> t)"
proof (cases "n = 0")
  case True
  then show ?thesis by (simp add: assms(3,4) fmul_def fdiv_def fl_zero)
next
  case False
  with assms(1) have n: "1 \<le> n" by simp
  then have n': "(1::rat) \<le> of_int n" by simp
  have rs: "0 < r" "1 / 2 \<le> r" "r \<le> 1" "0 < s" by (simp_all add: assms(5,6))
  define a where "a = fl (of_int n)"
  define b where "b = fl (a / 1000000)"
  define p where "p = fl q"
  have t: "t = fl (b * p)" by (simp add: assms(3) fmul_def fdiv_def a_def b_def p_def)
  have a: "of_int n * r \<le> a \<and> a \<le> of_int n * s"
    unfolding a_def assms(5,6) using n' by (intro fl_step) simp_all
  have a_low: "1 / 2 \<le> a"
  proof -
    have "1 / 2 \<le> 1 * r" using rs by simp
    also have "\<dots> \<le> of_int n * r" using n' rs by (intro mult_right_mono) simp_all
    finally show ?thesis using a by simp
  qed
  have b: "of_int n * r / 1000000 * r \<le> b \<and> b \<le> of_int n * s / 1000000 * s"
    unfolding b_def assms(5,6)
  proof (intro fl_step)
    show "of_int n * (1 - 1 / 2 ^ 53) / 1000000 \<le> a / 1000000"
      using a by (simp add: assms(5) divide_right_mono)
    show "a / 1000000 \<le> of_int n * (1 + 1 / 2 ^ 53) / 1000000"
      using a by (simp add: assms(6) divide_right_mono)
    have "(1 / 2 ^ 60 :: rat) \<le> (1 / 2) / 1000000" by simp
    also have "\<dots> \<le> a / 1000000" using a_low by (intro divide_right_mono) simp_all
    finally show "a / 1000000 = 0 \<or> 1 / 2 ^ 60 \<le> a / 1000000" by simp
    show "(0::rat) \<le> of_int n * (1 - 1 / 2 ^ 53) / 1000000" using assms(1) by simp
  qed
  have b_low: "1 / 4000000 \<le> b"
  proof -
    have "(1 / 4000000 :: rat) = 1 * (1 / 2) / 1000000 * (1 / 2)" by simp
    also have "\<dots> \<le> of_int n * r / 1000000 * r"
      using n' rs by (intro mult_mono divide_right_mono) simp_all
    finally show ?thesis using b by simp
  qed
  have p: "q * r \<le> p \<and> p \<le> q * s"
    unfolding p_def assms(5,6)
  proof (intro fl_step)
    have "(1 / 2 ^ 60 :: rat) \<le> 1 / 16" by simp
    also have "\<dots> \<le> q" by fact
    finally show "q = 0 \<or> 1 / 2 ^ 60 \<le> q" by simp
    show "0 \<le> q" using assms(2) by simp
  qed simp_all
  have q0: "0 \<le> q" using assms(2) by simp
  have p_low: "1 / 32 \<le> p"
  proof -
    have "(1 / 32 :: rat) = 1 / 16 * (1 / 2)" by simp
    also have "\<dots> \<le> q * r" using assms(2) rs by (intro mult_mono) simp_all
    finally show ?thesis using p by simp
  qed
  have bp_low: "1 / 128000000 \<le> b * p"
  proof -
    have "(1 / 128000000 :: rat) = 1 / 4000000 * (1 / 32)" by simp
    also have "\<dots> \<le> b * p" using b_low p_low by (intro mult_mono) simp_all
    finally show ?thesis .
  qed
  have c: "of_int n * r / 1000000 * r * (q * r) * r \<le> fl (b * p) \<and>
           fl (b * p) \<le> of_int n * s / 1000000 * s * (q * s) * s"
    unfolding assms(5,6)
  proof (intro fl_step)
    show "of_int n * (1 - 1 / 2 ^ 53) / 1000000 * (1 - 1 / 2 ^ 53) * (q * (1 - 1 / 2 ^ 53)) \<le> b * p"
      using b p rs q0 assms(1) unfolding assms(5,6)
      by (intro mult_mono) simp_all
    have "0 \<le> b" "0 \<le> p" using b_low p_low by simp_all
    then show "b * p \<le> of_int n * (1 + 1 / 2 ^ 53) / 1000000 * (1 + 1 / 2 ^ 53) * (q * (1 + 1 / 2 ^ 53))"
      using b p rs q0 assms(1) unfolding assms(5,6)
      by (intro mult_mono) simp_all
    have "(1 / 2 ^ 60 :: rat) \<le> 1 / 128000000" by simp
    with bp_low show "b * p = 0 \<or> 1 / 2 ^ 60 \<le> b * p" by simp
    show "0 \<le> of_int n * (1 - 1 / 2 ^ 53) / 1000000 * (1 - 1 / 2 ^ 53) * (q * (1 - 1 / 2 ^ 53))"
      using assms(1) q0 by simp
  qed
  have e1: "of_int n * r / 1000000 * r * (q * r) * r = e * r ^ 4"
    by (simp add: assms(4) power_def)
  have e2: "of_int n * s / 1000000 * s * (q * s) * s = e * s ^ 4"
    by (simp add: assms(4) power_def)
  have t_low: "1 / 2 ^ 40 \<le> t"
  proof -
    have "(1 / 2 ^ 60 :: rat) \<le> 1 / 128000000" by simp
    with bp_low have "b * p = 0 \<or> 1 / 2 ^ 60 \<le> b * p" by simp
    from fl_between[OF this] have "b * p * (1 - 1 / 2 ^ 53) \<le> fl (b * p)" by simp
    moreover have "1 / 128000000 * (1 / 2) \<le> b * p * (1 - 1 / 2 ^ 53)"
      using bp_low by (intro mult_mono) simp_all
    moreover have "(1 / 2 ^ 40 :: rat) \<le> 1 / 128000000 * (1 / 2)" by simp
    ultimately show ?thesis unfolding t by linarith
  qed
  from c t_low show ?thesis unfolding t e1 e2 by simp
qed

lemma micro_bounds:
  fixes i outp :: int
  assumes "0 \<le> i" and "0 \<le> outp"
    and "inputCost = fmul (fdiv (fl (of_int i)) 1000000) (fl (15 / 100))"
    and "outputCost = fmul (fdiv (fl (of_int outp)) 1000000) (fl (120 / 100))"
    and "x = fmul (fadd inputCost outputCost) 1000000"
    and "e = of_int i * (15 / 100) + of_int outp * (120 / 100)"
    and "r = 1 - 1 / 2 ^ 53" and "s = 1 + 1 / 2 ^ 53"
  shows "e * r ^ 6 \<le> x \<and> x \<le> e * s ^ 6"
proof -
  define e1 :: rat where "e1 = of_int i * (15 / 100) / 1000000"
  define e2 :: rat where "e2 = of_int outp * (120 / 100) / 1000000"
  have rs: "0 < r" "1 / 2 \<le> r" "r \<le> 1" "0 < s" by (simp_all add: assms(7,8))
  have e12: "0 \<le> e1" "0 \<le> e2" using assms(1,2) by (simp_all add: e1_def e2_def)
  from cost_term[OF assms(1) _ assms(3) e1_def assms(7,8)]
  have t1: "e1 * r ^ 4 \<le> inputCost" "inputCost \<le> e1 * s ^ 4"
    "inputCost = 0 \<or> 1 / 2 ^ 40 \<le> inputCost" by simp_all
  from cost_term[OF assms(2) _ assms(4) e2_def assms(7,8)]
  have t2: "e2 * r ^ 4 \<le> outputCost" "outputCost \<le> e2 * s ^ 4"
    "outputCost = 0 \<or> 1 / 2 ^ 40 \<le> outputCost" by simp_all
  have nonneg: "0 \<le> inputCost" "0 \<le> outputCost"
    using t1(3) t2(3) by auto
  define y where "y = inputCost + outputCost"
  have y: "(e1 + e2) * r ^ 4 \<le> y" "y \<le> (e1 + e2) * s ^ 4"
    using t1(1,2) t2(1,2) by (simp_all add: y_def algebra_simps)
  have y_low: "y = 0 \<or> 1 / 2 ^ 40 \<le> y"
    using t1(3) t2(3) nonneg unfolding y_def by auto
  have y_norm: "y = 0 \<or> 1 / 2 ^ 60 \<le> y"
  proof -
    have "(1 / 2 ^ 60 :: rat) \<le> 1 / 2 ^ 40" by simp
    with y_low show ?thesis by auto
  qed
  define z where "z = fl y"
  have z: "(e1 + e2) * r ^ 4 * r \<le> z \<and> z \<le> (e1 + e2) * s ^ 4 * s"
    unfolding z_def assms(7,8)
    by (intro fl_step) (use y y_norm e12 in \<open>simp_all add: assms(7,8)\<close>)
  have z_low: "z = 0 \<or> 1 / 2 ^ 41 \<le> z"
  proof (cases "y = 0")
    case True
    then show ?thesis by (simp add: z_def fl_zero)
  next
    case False
    with y_low have l: "1 / 2 ^ 40 \<le> y" by simp
    have "(1 / 2 ^ 41 :: rat) = 1 / 2 ^ 40 * (1 / 2)" by simp
    also have "\<dots> \<le> y * (1 - 1 / 2 ^ 53)" using l by (intro mult_mono) simp_all
    also have "\<dots> \<le> z" unfolding z_def using fl_between[OF y_norm] by simp
    finally show ?thesis by simp
  qed
  have x: "x = fl (z * 1000000)"
    by (simp add: assms(5) fmul_def fadd_def z_def y_def)
  have e: "e = (e1 + e2) * 1000000" by (simp add: assms(6) e1_def e2_def)
  have "(e1 + e2) * r ^ 4 * r * 1000000 * r \<le> fl (z * 1000000) \<and>
        fl (z * 1000000) \<le> (e1 + e2) * s ^ 4 * s * 1000000 * s"
    unfolding assms(7,8)
  proof (intro fl_step)
    show "(e1 + e2) * (1 - 1 / 2 ^ 53) ^ 4 * (1 - 1 / 2 ^ 53) * 1000000 \<le> z * 1000000"
      using z by (simp add: assms(7))
    show "z * 1000000 \<le> (e1 + e2) * (1 + 1 / 2 ^ 53) ^ 4 * (1 + 1 / 2 ^ 53) * 1000000"
      using z by (simp add: assms(8))
    show "z * 1000000 = 0 \<or> 1 / 2 ^ 60 \<le> z * 1000000"
    proof (cases "z = 0")
      case True
      then show ?thesis by simp
    next
      case False
      with z_low have "1 / 2 ^ 41 \<le> z" by simp
      then have "1 / 2 ^ 41 * 1000000 \<le> z * 1000000" by simp
      moreover have "(1 / 2 ^ 60 :: rat) \<le> 1 / 2 ^ 41 * 1000000" by simp
      ultimately show ?thesis by linarith
    qed
    show "0 \<le> (e1 + e2) * (1 - 1 / 2 ^ 53) ^ 4 * (1 - 1 / 2 ^ 53) * 1000000"
      using e12 by simp
  qed
  moreover have "(e1 + e2) * r ^ 4 * r * 1000000 * r = e * r ^ 6"
    unfolding e by (simp add: power_def)
  moreover have "(e1 + e2) * s ^ 4 * s * 1000000 * s = e * s ^ 6"
    unfolding e by (simp add: power_def)
  ultimately show ?thesis unfolding x by simp
qed

lemma nearest_millionth:
  fixes x e :: rat and m :: int
  assumes "e * (1 - 1 / 2 ^ 53) ^ 6 \<le> x" and "x \<le> e * (1 + 1 / 2 ^ 53) ^ 6"
    and "0 \<le> e" and "e \<le> 1350000000000" and "e = of_int m / 20"
  shows "\<bar>of_int \<lfloor>x + 1 / 2\<rfloor> - e\<bar> \<le> 1 / 2"
proof -
  define k where "k = \<lfloor>x + 1 / 2\<rfloor>"
  have k: "of_int k \<le> x + 1 / 2" "x + 1 / 2 < of_int k + 1"
    unfolding k_def by linarith+
  have up: "(1 + 1 / 2 ^ 53 :: rat) ^ 6 \<le> 1 + 1 / 2 ^ 50" by (simp add: power_divide)
  have lo: "(1 - 1 / 2 ^ 50 :: rat) \<le> (1 - 1 / 2 ^ 53) ^ 6" by (simp add: power_divide)
  have "x \<le> e * (1 + 1 / 2 ^ 50)"
    using assms(2) mult_left_mono[OF up assms(3)] by linarith
  then have x_up: "x - e \<le> e / 2 ^ 50" by (simp add: algebra_simps)
  have "e * (1 - 1 / 2 ^ 50) \<le> x"
    using assms(1) mult_left_mono[OF lo assms(3)] by linarith
  then have x_lo: "e - x \<le> e / 2 ^ 50" by (simp add: algebra_simps)
  have "e / 2 ^ 50 \<le> 1350000000000 / 2 ^ 50" using assms(4) by (intro divide_right_mono) simp_all
  also have "\<dots> < (1 / 20 :: rat)" by simp
  finally have small: "e / 2 ^ 50 < 1 / 20" .
  have "of_int k - e < 1 / 2 + 1 / 20" "e - of_int k < 1 / 2 + 1 / 20"
    using k x_up x_lo small by linarith+
  then have "of_int (20 * k - m) < (11 :: rat)" "of_int (m - 20 * k) < (11 :: rat)"
    unfolding assms(5) by simp_all
  then have "20 * k - m < 11" "m - 20 * k < 11" by linarith+
  then have "20 * k - m \<le> 10" "m - 20 * k \<le> 10" by simp_all
  then have "(of_int (20 * k - m) :: rat) \<le> 10" "(of_int (m - 20 * k) :: rat) \<le> 10"
    by linarith+
  then have "of_int k - e \<le> 1 / 2" "e - of_int k \<le> 1 / 2"
    unfolding assms(5) by simp_all
  then show ?thesis unfolding k_def[symmetric] by linarith
qed

lemma estimateCost_unfold:
  "estimateCost \<lparr>input_tokens = inp, output_tokens = outp\<rparr> =
     fl (Math_round (fmul (fadd (fmul (fdiv (fl (of_int inp)) 1000000) (fl (15 / 100)))
                                (fmul (fdiv (fl (of_int outp)) 1000000) (fl (120 / 100))))
                          1000000) / 1000000)"
  by (simp add: estimateCost_def PRICING_def Let_def fdiv_def)

lemma Math_round_mono: "x \<le> y \<Longrightarrow> Math_round x \<le> Math_round y"
  by (simp add: Math_round_def floor_mono)

lemma cost_term_mono:
  assumes "(n :: int) \<le> n'" and "0 \<le> q"
  shows "fmul (fdiv (fl (of_int n)) 1000000) (fl q) \<le> fmul (fdiv (fl (of_int n')) 1000000) (fl q)"
proof -
  have "fl (of_int n) \<le> fl (of_int n')" using assms(1) by (intro fl_mono) simp
  then have "fl (of_int n) / 1000000 \<le> fl (of_int n') / 1000000"
    by (intro divide_right_mono) simp_all
  then have "fl (fl (of_int n) / 1000000) \<le> fl (fl (of_int n') / 1000000)" by (rule fl_mono)
  then have "fl (fl (of_int n) / 1000000) * fl q \<le> fl (fl (of_int n') / 1000000) * fl q"
    using fl_nonneg[OF assms(2)] by (intro mult_right_mono)
  then show ?thesis unfolding fmul_def fdiv_def by (rule fl_mono)
qed

lemma estimateCost_mono:
  assumes "inp \<le> inp'" and "outp \<le> outp'"
  shows "estimateCost \<lparr>input_tokens = inp, output_tokens = outp\<rparr> \<le>
         estimateCost \<lparr>input_tokens = inp', output_tokens = outp'\<rparr>"
proof -
  have "fmul (fdiv (fl (of_int inp)) 1000000) (fl (15 / 100)) +
        fmul (fdiv (fl (of_int outp)) 1000000) (fl (120 / 100)) \<le>
        fmul (fdiv (fl (of_int inp')) 1000000) (fl (15 / 100)) +
        fmul (fdiv (fl (of_int outp')) 1000000) (fl (120 / 100))"
    by (intro add_mono cost_term_mono assms) simp_all
  then have "fadd (fmul (fdiv (fl (of_int inp)) 1000000) (fl (15 / 100)))
                  (fmul (fdiv (fl (of_int outp)) 1000000) (fl (120 / 100))) \<le>
             fadd (fmul (fdiv (fl (of_int inp')) 1000000) (fl (15 / 100)))
                  (fmul (fdiv (fl (of_int outp')) 1000000) (fl (120 / 100)))"
    unfolding fadd_def by (rule fl_mono)
  then have "fmul (fadd (fmul (fdiv (fl (of_int inp)) 1000000) (fl (15 / 100)))
                  (fmul (fdiv (fl (of_int outp)) 1000000) (fl (120 / 100)))) 1000000 \<le>
             fmul (fadd (fmul (fdiv (fl (of_int inp')) 1000000) (fl (15 / 100)))
                  (fmul (fdiv (fl (of_int outp')) 1000000) (fl (120 / 100)))) 1000000"
    unfolding fmul_def[of _ 1000000] by (intro fl_mono mult_right_mono) simp_all
  then have "Math_round (fmul (fadd (fmul (fdiv (fl (of_int inp)) 1000000) (fl (15 / 100)))
                  (fmul (fdiv (fl (of_int outp)) 1000000) (fl (120 / 100)))) 1000000) / 1000000 \<le>
             Math_round (fmul (fadd (fmul (fdiv (fl (of_int inp')) 1000000) (fl (15 / 100)))
                  (fmul (fdiv (fl (of_int outp')) 1000000) (fl (120 / 100)))) 1000000) / 1000000"
    by (intro divide_right_mono Math_round_mono) simp_all
  then show ?thesis unfolding estimateCost_unfold by (rule fl_mono)
qed

lemma floor_half: "\<lfloor>1 / 2 :: rat\<rfloor> = 0"
  by (rule floor_unique) simp_all

lemma frac_half: "frac (of_int n + 1 / 2 :: rat) = 1 / 2"
  by (simp add: frac_unique_iff)

lemma estimateCost_zero: "estimateCost \<lparr>input_tokens = 0, output_tokens = 0\<rparr> = 0"
  by (simp add: estimateCost_unfold fmul_def fdiv_def fadd_def fl_zero Math_round_def floor_half)

lemma estimateCost_nearest:
  assumes "0 \<le> inp" and "inp \<le> 1000000000000" and "0 \<le> outp" and "outp \<le> 1000000000000"
    and "e = of_int inp * (15 / 100) + of_int outp * (120 / 100)"
  shows "\<exists>k. estimateCost \<lparr>input_tokens = inp, output_tokens = outp\<rparr> = fl (of_int k / 1000000) \<and>
             \<bar>of_int k - e\<bar> \<le> 1 / 2 \<and>
             (frac e \<noteq> 1 / 2 \<longrightarrow> k = round_half_away e)"
proof -
  define x where "x = fmul (fadd (fmul (fdiv (fl (of_int inp)) 1000000) (fl (15 / 100)))
                                (fmul (fdiv (fl (of_int outp)) 1000000) (fl (120 / 100))))
                          1000000"
  define k where "k = \<lfloor>x + 1 / 2\<rfloor>"
  from micro_bounds[OF assms(1,3) refl refl x_def assms(5) refl refl]
  have x: "e * (1 - 1 / 2 ^ 53) ^ 6 \<le> x" "x \<le> e * (1 + 1 / 2 ^ 53) ^ 6" by simp_all
  have e0: "0 \<le> e" using assms(1,3) by (simp add: assms(5))
  have "of_int inp * (15 / 100) \<le> (1000000000000 :: rat) * (15 / 100)"
    using assms(2) by (intro mult_right_mono) simp_all
  moreover have "of_int outp * (120 / 100) \<le> (1000000000000 :: rat) * (120 / 100)"
    using assms(4) by (intro mult_right_mono) simp_all
  ultimately have e1: "e \<le> 1350000000000" unfolding assms(5) by simp
  have e2: "e = of_int (3 * inp + 24 * outp) / 20" by (simp add: assms(5))
  from nearest_millionth[OF x e0 e1 e2]
  have near: "\<bar>of_int k - e\<bar> \<le> 1 / 2" by (simp add: k_def)
  have run: "estimateCost \<lparr>input_tokens = inp, output_tokens = outp\<rparr> = fl (of_int k / 1000000)"
    unfolding estimateCost_unfold x_def[symmetric] by (simp add: Math_round_def k_def)
  have "k = round_half_away e" if "frac e \<noteq> 1 / 2"
  proof -
    have neq: "e \<noteq> of_int k + 1 / 2"
    proof
      assume "e = of_int k + 1 / 2"
      then have "frac e = 1 / 2" by (simp only: frac_half)
      with that show False by simp
    qed
    have le: "of_int k - e \<le> 1 / 2" "e - of_int k \<le> 1 / 2" using near by linarith+
    from le(2) neq have "e < of_int k + 1 / 2" by linarith
    with le(1) have "of_int k \<le> e + 1 / 2" "e + 1 / 2 < of_int k + 1" by linarith+
    then have "\<lfloor>e + 1 / 2\<rfloor> = k" by (intro floor_unique) simp_all
    then show ?thesis using e0 by (simp add: round_half_away_def)
  qed
  with run near show ?thesis by blast
qed

text \<open>
  C8, as the code computes it. The cost of no tokens is 0. The cost does not decrease when
  either token count grows (for all counts, also negative ones). For token counts from 0
  to \<open>10 ^ 12\<close> the result is the double nearest to \<open>k / 10 ^ 6\<close> for a whole number \<open>k\<close>
  that is within one half of the exact cost in millionths of a dollar,
  \<open>input_tokens * 0.15 + output_tokens * 1.20\<close>: the nearest whole number of millionths, and
  when the exact cost is not halfway between two of them, the double nearest to the
  specification's value.
\<close>

theorem estimateCost_rounds_and_grows:
  "estimateCost \<lparr>input_tokens = 0, output_tokens = 0\<rparr> = 0 \<and>
   (inp \<le> inp' \<and> outp \<le> outp' \<longrightarrow>
      estimateCost \<lparr>input_tokens = inp, output_tokens = outp\<rparr> \<le>
      estimateCost \<lparr>input_tokens = inp', output_tokens = outp'\<rparr>) \<and>
   (0 \<le> inp \<and> inp \<le> 1000000000000 \<and> 0 \<le> outp \<and> outp \<le> 1000000000000 \<longrightarrow>
      (\<exists>k. estimateCost \<lparr>input_tokens = inp, output_tokens = outp\<rparr> =
             fl (of_int k / 1000000) \<and>
           \<bar>of_int k - (of_int inp * (15 / 100) + of_int outp * (120 / 100) :: rat)\<bar>
             \<le> 1 / 2) \<and>
      (frac (of_int inp * (15 / 100) + of_int outp * (120 / 100) :: rat) \<noteq> 1 / 2 \<longrightarrow>
         estimateCost \<lparr>input_tokens = inp, output_tokens = outp\<rparr> =
         fl (spec_estimate_cost \<lparr>input_tokens = inp, output_tokens = outp\<rparr>)))"
proof (intro conjI impI)
  show "estimateCost \<lparr>input_tokens = 0, output_tokens = 0\<rparr> = 0" by (rule estimateCost_zero)
next
  assume "inp \<le> inp' \<and> outp \<le> outp'"
  then show "estimateCost \<lparr>input_tokens = inp, output_tokens = outp\<rparr> \<le>
      estimateCost \<lparr>input_tokens = inp', output_tokens = outp'\<rparr>"
    by (intro estimateCost_mono) simp_all
next
  assume "0 \<le> inp \<and> inp \<le> 1000000000000 \<and> 0 \<le> outp \<and> outp \<le> 1000000000000"
  then have r: "0 \<le> inp" "inp \<le> 1000000000000" "0 \<le> outp" "outp \<le> 1000000000000"
    by simp_all
  from estimateCost_nearest[OF r refl]
  show "\<exists>k. estimateCost \<lparr>input_tokens = inp, output_tokens = outp\<rparr> =
             fl (of_int k / 1000000) \<and>
           \<bar>of_int k - (of_int inp * (15 / 100) + of_int outp * (120 / 100) :: rat)\<bar>
             \<le> 1 / 2"
    by blast
next
  assume "0 \<le> inp \<and> inp \<le> 1000000000000 \<and> 0 \<le> outp \<and> outp \<le> 1000000000000"
    and tie: "frac (of_int inp * (15 / 100) + of_int outp * (120 / 100) :: rat) \<noteq> 1 / 2"
  then have r: "0 \<le> inp" "inp \<le> 1000000000000" "0 \<le> outp" "outp \<le> 1000000000000"
    by simp_all
  from estimateCost_nearest[OF r refl] tie
  have est: "estimateCost \<lparr>input_tokens = inp, output_tokens = outp\<rparr> =
          fl (of_int (round_half_away (of_int inp * (15 / 100) + of_int outp * (120 / 100)))
              / 1000000)"
    by blast
  have eq: "(of_int inp / 1000000 * (15 / 100) + of_int outp / 1000000 * (120 / 100))
                   * 1000000 = (of_int inp * (15 / 100) + of_int outp * (120 / 100) :: rat)"
    by (simp add: algebra_simps)
  have spec: "spec_estimate_cost \<lparr>input_tokens = inp, output_tokens = outp\<rparr> =
          of_int (round_half_away (of_int inp * (15 / 100) + of_int outp * (120 / 100)))
              / 1000000"
    unfolding spec_estimate_cost_def by (simp only: MinimaxUsage.select_convs eq)
  show "estimateCost \<lparr>input_tokens = inp, output_tokens = outp\<rparr> =
         fl (spec_estimate_cost \<lparr>input_tokens = inp, output_tokens = outp\<rparr>)"
    unfolding spec by (rule est)
qed

theorem estimateCost_rounds_and_grows_witness:
  "estimateCost \<lparr>input_tokens = 0, output_tokens = 0\<rparr> = 0 \<and>
   estimateCost \<lparr>input_tokens = 1000, output_tokens = 500\<rparr> \<le>
     estimateCost \<lparr>input_tokens = 1001, output_tokens = 500\<rparr> \<and>
   (\<exists>k. estimateCost \<lparr>input_tokens = 1000, output_tokens = 500\<rparr> = fl (of_int k / 1000000) \<and>
        \<bar>of_int k - (750 :: rat)\<bar> \<le> 1 / 2) \<and>
   estimateCost \<lparr>input_tokens = 1000, output_tokens = 500\<rparr> = fl (750 / 1000000)"
proof -
  have e: "(of_int 1000 * (15 / 100) + of_int 500 * (120 / 100) :: rat) = 750" by simp
  have f: "frac (750 :: rat) \<noteq> 1 / 2" by (simp add: frac_def)
  have h: "\<lfloor>1501 / 2 :: rat\<rfloor> = 750" by (rule floor_unique) simp_all
  have s: "spec_estimate_cost \<lparr>input_tokens = 1000, output_tokens = 500\<rparr> = 750 / 1000000"
    by (simp add: spec_estimate_cost_def round_half_away_def h)
  have p1: "(1000 :: int) \<le> 1001 \<and> (500 :: int) \<le> 500" by simp
  have p2: "0 \<le> (1000 :: int) \<and> (1000 :: int) \<le> 1000000000000 \<and>
            0 \<le> (500 :: int) \<and> (500 :: int) \<le> 1000000000000" by simp
  from estimateCost_rounds_and_grows[of 1000 1001 500 500, unfolded e s] p1 p2 f
  show ?thesis by blast
qed

text \<open>
  C8 as it is stated fails where the exact cost is halfway between two millionths. Two
  input tokens and six output tokens cost exactly 0.0000075 dollars, which rounds to
  0.000008; the doubles give a product just below 7.5 and the code returns 0.000007.
\<close>

theorem estimateCost_tie_counterexample:
  "spec_estimate_cost \<lparr>input_tokens = 2, output_tokens = 6\<rparr> = 8 / 1000000 \<and>
   estimateCost \<lparr>input_tokens = 2, output_tokens = 6\<rparr> = fl (7 / 1000000) \<and>
   fl (7 / 1000000) < 75 / 10000000"
proof (intro conjI)
  show "spec_estimate_cost \<lparr>input_tokens = 2, output_tokens = 6\<rparr> = 8 / 1000000"
    by (simp add: spec_estimate_cost_def round_half_away_def)
  show "estimateCost \<lparr>input_tokens = 2, output_tokens = 6\<rparr> = fl (7 / 1000000)"
    by code_simp
  show "fl (7 / 1000000) < 75 / 10000000"
    by code_simp
qed

end
